theory Spec2Isabelle
  imports Complex_Main
begin

section \<open>The daily news plugin (main.py)\<close>

text \<open>
  A shallow embedding of the plugin class \<^verbatim>\<open>Daily60sNewsPlugin\<close>: the downloader with its
  retry loop, the cache sweep, the broadcast, the sleep computation and the background loop.
  Everything outside the plugin's own code is a value of the environment: the clock, the
  cache directory, the replies of the network, the outcome of the send primitive and the
  moment of a cancellation are fields of a \<open>world\<close>; the text-conversion routines of the
  standard library (\<^verbatim>\<open>int\<close>, \<^verbatim>\<open>strptime\<close>, \<^verbatim>\<open>strftime\<close>) are fields of a \<open>platform\<close>.
  Every function takes the world and returns it with its result, also when it raises.
\<close>

subsection \<open>Exceptions, JSON values and events\<close>

datatype json =
    JNull
  | JBool bool
  | JNum rat
  | JStr string
  | JArr "json list"
  | JObj "(string \<times> json) list"

text \<open>
  The texts of the five \<^verbatim>\<open>raise Exception(f"...")\<close> statements of \<^verbatim>\<open>_download_news\<close>, each
  with the value it interpolates: \<open>Api_status\<close> is the text of lines 210 and 249 with the
  HTTP status, \<open>Missing_image_url\<close> the text of line 222, \<open>Image_http\<close> the text of
  line 233 with the HTTP status, \<open>Api_error\<close> the text of line 235 with the value of
  \<^verbatim>\<open>data.get('msg', ...)\<close> (\<open>None\<close> for the default text) and \<open>Api_http\<close> the text of
  line 237 with the HTTP status.
\<close>

datatype message =
    Api_status int
  | Missing_image_url
  | Image_http int
  | Api_error "json option"
  | Api_http int

text \<open>
  \<open>CancelledError\<close> is the only exception of the model that is not a subclass of
  \<^verbatim>\<open>Exception\<close>, so it is the only one that \<^verbatim>\<open>except Exception\<close> lets through (the
  annotation \<^verbatim>\<open>tuple[str, bool] | None\<close> of line 187 needs a Python in which
  \<^verbatim>\<open>asyncio.CancelledError\<close> derives from \<^verbatim>\<open>BaseException\<close>). \<open>NetworkError\<close> stands for
  what the HTTP client raises (a timeout, a refused connection, an invalid URL),
  \<open>SendError\<close> for what the send primitive raises, \<open>DecodeError\<close> for a body that
  \<^verbatim>\<open>response.json()\<close> rejects.
\<close>

datatype exn =
    CancelledError
  | ValueError
  | TypeError
  | AttributeError
  | OverflowError
  | OSError
  | DecodeError
  | NetworkError string
  | SendError string
  | Exception message

definition is_Exception :: "exn \<Rightarrow> bool" where
  "is_Exception e = (e \<noteq> CancelledError)"

text \<open>
  A string that \<^verbatim>\<open>_download_news\<close> returns is either the path it wrote or the text of
  line 257 around the exception \<^verbatim>\<open>e\<close>, kept as \<open>Report e\<close>.
\<close>

datatype content = Path string | Report exn

datatype logged =
    Info_path string
  | Info_start string
  | Info_fetch string
  | Info_image json
  | Error_retry nat nat exn
  | Error_failed exn
  | Info_push_image content
  | Info_pushed string
  | Error_push exn
  | Exception_detail
  | Info_next rat
  | Error_task exn
  | Info_update

datatype event =
    Logged logged
  | Get string
  | Sleep rat
  | Send string content
  | Write string
  | Remove string
  | Traceback

subsection \<open>The environment\<close>

record response =
  status :: int
  body :: string
  json_body :: "json option"

datatype reply = Fails string | Responds response

text \<open>
  \<open>now\<close> is the local wall clock in microseconds on the proleptic Gregorian time line, so
  that \<open>now div 86400000000\<close> is the ordinal of the date; a sleep moves it on by its
  duration. \<open>files\<close> is the cache directory in listing order, names with contents; a
  path is the name of a file in that directory, the only one the plugin touches. A name
  in \<open>locked\<close> can neither be written nor removed (\<^verbatim>\<open>OSError\<close>). \<open>replies\<close> and
  \<open>send_results\<close> give the outcome of the GET requests and of the calls of the send
  primitive to come, in order; when \<open>replies\<close> is used up a request times out, when
  \<open>send_results\<close> is used up a send succeeds. \<open>cancel_after\<close> is the number of
  suspension points (a sleep, a request, a send) the task still passes before it is
  cancelled, if it is. \<open>trace\<close> records what the plugin did, in order.
\<close>

record world =
  now :: int
  files :: "(string \<times> string) list"
  locked :: "string list"
  replies :: "reply list"
  send_results :: "string option list"
  cancel_after :: "nat option"
  trace :: "event list"

record platform =
  int_str :: "string \<Rightarrow> int option"
  strptime_Ymd :: "string \<Rightarrow> int option"
  strftime_Ymd :: "int \<Rightarrow> string"
  strftime_iso :: "int \<Rightarrow> string"

text \<open>The attributes that \<^verbatim>\<open>__init__\<close> copies from the configuration.\<close>

record plugin =
  news_type :: string
  api :: string
  img_key :: string
  date_key :: string
  img_url :: string
  groups :: "string list"
  push_time :: string
  save_days :: int

definition emit :: "event \<Rightarrow> world \<Rightarrow> world" where
  "emit e w = w\<lparr>trace := trace w @ [e]\<rparr>"

definition logger :: "logged \<Rightarrow> world \<Rightarrow> world" where
  "logger l w = emit (Logged l) w"

definition suspend :: "world \<Rightarrow> (exn + unit) \<times> world" where
  "suspend w =
    (case cancel_after w of
       None \<Rightarrow> (Inr (), w)
     | Some 0 \<Rightarrow> (Inl CancelledError, w)
     | Some (Suc n) \<Rightarrow> (Inr (), w\<lparr>cancel_after := Some n\<rparr>))"

definition asyncio_sleep :: "rat \<Rightarrow> world \<Rightarrow> (exn + unit) \<times> world" where
  "asyncio_sleep s w =
    (case suspend (emit (Sleep s) w) of
       (Inl e, w') \<Rightarrow> (Inl e, w')
     | (Inr _, w') \<Rightarrow> (Inr (), w'\<lparr>now := now w' + max 0 \<lfloor>s * 1000000\<rfloor>\<rparr>))"

subsection \<open>Dates and times\<close>

definition day_us :: int where
  "day_us = 86400000000"

definition max_ordinal :: int where
  "max_ordinal = 3652059"

definition date_of :: "int \<Rightarrow> int" where
  "date_of t = t div day_us"

definition datetime_at :: "int \<Rightarrow> int \<Rightarrow> int \<Rightarrow> int \<Rightarrow> int \<Rightarrow> int" where
  "datetime_at ordinal hour minute second microsecond =
     ordinal * day_us + ((hour * 60 + minute) * 60 + second) * 1000000 + microsecond"

definition replace_time :: "int \<Rightarrow> int \<Rightarrow> int \<Rightarrow> exn + int" where
  "replace_time t hour minute =
    (if 0 \<le> hour \<and> hour \<le> 23 \<and> 0 \<le> minute \<and> minute \<le> 59
     then Inr (datetime_at (date_of t) hour minute 0 0)
     else Inl ValueError)"

definition add_days :: "int \<Rightarrow> int \<Rightarrow> exn + int" where
  "add_days t n =
    (if 1 \<le> date_of t + n \<and> date_of t + n \<le> max_ordinal
     then Inr (t + n * day_us)
     else Inl OverflowError)"

definition total_seconds :: "int \<Rightarrow> rat" where
  "total_seconds td = of_int td / 1000000"

fun split_on :: "char \<Rightarrow> string \<Rightarrow> string list" where
  "split_on c [] = [[]]"
| "split_on c (x # xs) =
    (if x = c then [] # split_on c xs
     else (case split_on c xs of
             [] \<Rightarrow> [[x]]
           | p # ps \<Rightarrow> (x # p) # ps))"

definition parse_push_time :: "platform \<Rightarrow> string \<Rightarrow> exn + int \<times> int" where
  "parse_push_time L s =
    (case split_on CHR '':'' s of
       [a, b] \<Rightarrow>
         (case int_str L a of
            None \<Rightarrow> Inl ValueError
          | Some hour \<Rightarrow>
              (case int_str L b of
                 None \<Rightarrow> Inl ValueError
               | Some minute \<Rightarrow> Inr (hour, minute)))
     | _ \<Rightarrow> Inl ValueError)"

subsection \<open>\<^verbatim>\<open>_calculate_sleep_time\<close>\<close>

definition calculate_sleep_time :: "platform \<Rightarrow> plugin \<Rightarrow> world \<Rightarrow> exn + rat" where
  "calculate_sleep_time L P w =
    (case parse_push_time L (push_time P) of
       Inl e \<Rightarrow> Inl e
     | Inr (hour, minute) \<Rightarrow>
         (case replace_time (now w) hour minute of
            Inl e \<Rightarrow> Inl e
          | Inr next_push \<Rightarrow>
              if next_push \<le> now w then
                (case add_days next_push 1 of
                   Inl e \<Rightarrow> Inl e
                 | Inr next_push' \<Rightarrow> Inr (total_seconds (next_push' - now w)))
              else Inr (total_seconds (next_push - now w))))"

subsection \<open>Files and requests\<close>

definition file_exists :: "string \<Rightarrow> world \<Rightarrow> bool" where
  "file_exists path w = (path \<in> set (map fst (files w)))"

fun store :: "string \<Rightarrow> string \<Rightarrow> (string \<times> string) list \<Rightarrow> (string \<times> string) list" where
  "store path data [] = [(path, data)]"
| "store path data ((n, d) # fs) =
    (if n = path then (n, data) # fs else (n, d) # store path data fs)"

definition write_file :: "string \<Rightarrow> string \<Rightarrow> world \<Rightarrow> (exn + unit) \<times> world" where
  "write_file path data w =
    (if path \<in> set (locked w) then (Inl OSError, w)
     else (Inr (), emit (Write path) (w\<lparr>files := store path data (files w)\<rparr>)))"

definition os_remove :: "string \<Rightarrow> world \<Rightarrow> (exn + unit) \<times> world" where
  "os_remove path w =
    (if path \<in> set (locked w) \<or> \<not> file_exists path w then (Inl OSError, w)
     else (Inr (), emit (Remove path) (w\<lparr>files := filter (\<lambda>f. fst f \<noteq> path) (files w)\<rparr>)))"

definition http_get :: "string \<Rightarrow> world \<Rightarrow> (exn + response) \<times> world" where
  "http_get url w =
    (case suspend (emit (Get url) w) of
       (Inl e, w') \<Rightarrow> (Inl e, w')
     | (Inr _, w') \<Rightarrow>
         (case replies w' of
            [] \<Rightarrow> (Inl (NetworkError []), w')
          | Fails s # rs \<Rightarrow> (Inl (NetworkError s), w'\<lparr>replies := rs\<rparr>)
          | Responds r # rs \<Rightarrow> (Inr r, w'\<lparr>replies := rs\<rparr>)))"

definition send_message :: "string \<Rightarrow> content \<Rightarrow> world \<Rightarrow> (exn + unit) \<times> world" where
  "send_message target chain w =
    (case suspend (emit (Send target chain) w) of
       (Inl e, w') \<Rightarrow> (Inl e, w')
     | (Inr _, w') \<Rightarrow>
         (case send_results w' of
            [] \<Rightarrow> (Inr (), w')
          | None # rs \<Rightarrow> (Inr (), w'\<lparr>send_results := rs\<rparr>)
          | Some s # rs \<Rightarrow> (Inl (SendError s), w'\<lparr>send_results := rs\<rparr>)))"

text \<open>\<^verbatim>\<open>data.get(key)\<close>: only a dict has the method.\<close>

definition dict_get :: "json \<Rightarrow> string \<Rightarrow> exn + json option" where
  "dict_get data key =
    (case data of
       JObj kvs \<Rightarrow> Inr (map_of kvs key)
     | _ \<Rightarrow> Inl AttributeError)"

text \<open>Python's truth value of what \<^verbatim>\<open>data.get\<close> returned (\<open>None\<close> is Python's \<^verbatim>\<open>None\<close>).\<close>

fun truthy :: "json option \<Rightarrow> bool" where
  "truthy None = False"
| "truthy (Some JNull) = False"
| "truthy (Some (JBool b)) = b"
| "truthy (Some (JNum r)) = (r \<noteq> 0)"
| "truthy (Some (JStr s)) = (s \<noteq> [])"
| "truthy (Some (JArr xs)) = (xs \<noteq> [])"
| "truthy (Some (JObj kvs)) = (kvs \<noteq> [])"

subsection \<open>\<^verbatim>\<open>_get_news_file_path\<close> and \<^verbatim>\<open>_download_news\<close>\<close>

definition get_news_file_path :: "platform \<Rightarrow> world \<Rightarrow> (string \<times> string) \<times> world" where
  "get_news_file_path L w =
    (let current_date = strftime_Ymd L (date_of (now w));
         name = current_date @ ''.jpeg'';
         path = name
     in ((path, name), logger (Info_path path) w))"

definition retries :: nat where
  "retries = 3"

text \<open>
  The body of the \<^verbatim>\<open>try\<close> of one attempt, one definition for each branch on
  \<^verbatim>\<open>self.news_type\<close>. \<open>Inr True\<close> is \<^verbatim>\<open>return path, True\<close>; \<open>Inr False\<close> is the end of
  the body without a \<^verbatim>\<open>return\<close>.
\<close>

definition attempt_vikiboss :: "string \<Rightarrow> string \<Rightarrow> world \<Rightarrow> (exn + bool) \<times> world" where
  "attempt_vikiboss path date w =
    (let url = ''https://60s-api.viki.moe/v2/60s?date='' @ date @ ''&encoding=image-proxy''
     in case http_get url (logger (Info_start url) w) of
          (Inl e, w1) \<Rightarrow> (Inl e, w1)
        | (Inr response, w1) \<Rightarrow>
            if status response = 200 then
              (case write_file path (body response) w1 of
                 (Inl e, w2) \<Rightarrow> (Inl e, w2)
               | (Inr _, w2) \<Rightarrow> (Inr True, w2))
            else (Inl (Exception (Api_status (status response))), w1))"

definition attempt_indirect :: "plugin \<Rightarrow> string \<Rightarrow> world \<Rightarrow> (exn + bool) \<times> world" where
  "attempt_indirect P path w =
    (let url = api P
     in case http_get url (logger (Info_fetch url) w) of
          (Inl e, w1) \<Rightarrow> (Inl e, w1)
        | (Inr response, w1) \<Rightarrow>
            if status response = 200 then
              (case json_body response of
                 None \<Rightarrow> (Inl DecodeError, w1)
               | Some data \<Rightarrow>
                   (case dict_get data ''code'' of
                      Inl e \<Rightarrow> (Inl e, w1)
                    | Inr code \<Rightarrow>
                        if code = Some (JNum 200) then
                          (case dict_get data ''imageUrl'' of
                             Inl e \<Rightarrow> (Inl e, w1)
                           | Inr image_url \<Rightarrow>
                               if \<not> truthy image_url then (Inl (Exception Missing_image_url), w1)
                               else
                                 (case image_url of
                                    Some (JStr u) \<Rightarrow>
                                      (case http_get u (logger (Info_image (JStr u)) w1) of
                                         (Inl e, w2) \<Rightarrow> (Inl e, w2)
                                       | (Inr img_response, w2) \<Rightarrow>
                                           if status img_response = 200 then
                                             (case write_file path (body img_response) w2 of
                                                (Inl e, w3) \<Rightarrow> (Inl e, w3)
                                              | (Inr _, w3) \<Rightarrow> (Inr True, w3))
                                           else (Inl (Exception (Image_http (status img_response))), w2))
                                  | Some v \<Rightarrow> (Inl TypeError, logger (Info_image v) w1)
                                  | None \<Rightarrow> (Inl TypeError, w1)))
                        else
                          (case dict_get data ''msg'' of
                             Inl e \<Rightarrow> (Inl e, w1)
                           | Inr msg \<Rightarrow> (Inl (Exception (Api_error msg)), w1))))
            else (Inl (Exception (Api_http (status response))), w1))"

definition attempt_direct :: "plugin \<Rightarrow> string \<Rightarrow> world \<Rightarrow> (exn + bool) \<times> world" where
  "attempt_direct P path w =
    (let url = img_url P
     in case http_get url (logger (Info_start url) w) of
          (Inl e, w1) \<Rightarrow> (Inl e, w1)
        | (Inr response, w1) \<Rightarrow>
            if status response = 200 then
              (case write_file path (body response) w1 of
                 (Inl e, w2) \<Rightarrow> (Inl e, w2)
               | (Inr _, w2) \<Rightarrow> (Inr True, w2))
            else (Inl (Exception (Api_status (status response))), w1))"

definition attempt_body :: "plugin \<Rightarrow> string \<Rightarrow> string \<Rightarrow> world \<Rightarrow> (exn + bool) \<times> world" where
  "attempt_body P path date w =
    (if news_type P = ''vikiboss_api'' then attempt_vikiboss path date w
     else if news_type P = ''indirect'' then attempt_indirect P path w
     else if news_type P = ''direct'' then attempt_direct P path w
     else (Inr False, w))"

text \<open>
  The \<^verbatim>\<open>for attempt in range(retries)\<close> loop with \<open>k\<close> attempts left, so that
  \<^verbatim>\<open>attempt\<close> is \<open>retries - k\<close>; after the last attempt the function returns \<^verbatim>\<open>None\<close>.
\<close>

fun download_loop ::
  "plugin \<Rightarrow> string \<Rightarrow> string \<Rightarrow> nat \<Rightarrow> world \<Rightarrow> (exn + (content \<times> bool) option) \<times> world" where
  "download_loop P path date 0 w = (Inr None, w)"
| "download_loop P path date (Suc k) w =
    (let attempt = retries - Suc k
     in case attempt_body P path date w of
          (Inr True, w1) \<Rightarrow> (Inr (Some (Path path, True)), w1)
        | (Inr False, w1) \<Rightarrow> download_loop P path date k w1
        | (Inl e, w1) \<Rightarrow>
            if is_Exception e then
              (let w2 = logger (Error_retry (attempt + 1) retries e) w1
               in if attempt = retries - 1
                  then (Inr (Some (Report e, False)), logger (Error_failed e) w2)
                  else (case asyncio_sleep 1 w2 of
                          (Inl e', w3) \<Rightarrow> (Inl e', w3)
                        | (Inr _, w3) \<Rightarrow> download_loop P path date k w3))
            else (Inl e, w1))"

definition download_news ::
  "platform \<Rightarrow> plugin \<Rightarrow> string \<Rightarrow> world \<Rightarrow> (exn + (content \<times> bool) option) \<times> world" where
  "download_news L P path w =
    (let date = strftime_iso L (date_of (now w))
     in download_loop P path date retries w)"

subsection \<open>\<^verbatim>\<open>_update_news_files\<close> and \<^verbatim>\<open>_get_image_news\<close>\<close>

definition update_news_files :: "platform \<Rightarrow> plugin \<Rightarrow> world \<Rightarrow> (exn + unit) \<times> world" where
  "update_news_files L P w =
    (case get_news_file_path L (logger Info_update w) of
       ((image_path, _), w1) \<Rightarrow>
         (case download_news L P image_path w1 of
            (Inl e, w2) \<Rightarrow> (Inl e, w2)
          | (Inr _, w2) \<Rightarrow> (Inr (), w2)))"

definition get_image_news ::
  "platform \<Rightarrow> plugin \<Rightarrow> world \<Rightarrow> (exn + (content \<times> bool) option) \<times> world" where
  "get_image_news L P w =
    (case get_news_file_path L w of
       ((path, _), w1) \<Rightarrow>
         if file_exists path w1 then (Inr (Some (Path path, True)), w1)
         else download_news L P path w1)"

text \<open>
  The two commands that answer with today's image (\<^verbatim>\<open>daily_60s_news\<close> and
  \<^verbatim>\<open>push_image_news\<close> have the same body): unpacking \<^verbatim>\<open>None\<close> into two names is a
  \<^verbatim>\<open>TypeError\<close>.
\<close>

definition daily_60s_news :: "platform \<Rightarrow> plugin \<Rightarrow> world \<Rightarrow> (exn + content) \<times> world" where
  "daily_60s_news L P w =
    (case get_image_news L P w of
       (Inl e, w1) \<Rightarrow> (Inl e, w1)
     | (Inr None, w1) \<Rightarrow> (Inl TypeError, w1)
     | (Inr (Some (news_path, _)), w1) \<Rightarrow> (Inr news_path, w1))"

definition push_image_news :: "platform \<Rightarrow> plugin \<Rightarrow> world \<Rightarrow> (exn + content) \<times> world" where
  "push_image_news L P w =
    (case get_image_news L P w of
       (Inl e, w1) \<Rightarrow> (Inl e, w1)
     | (Inr None, w1) \<Rightarrow> (Inl TypeError, w1)
     | (Inr (Some (news_path, _)), w1) \<Rightarrow> (Inr news_path, w1))"

subsection \<open>\<^verbatim>\<open>_send_daily_news_to_groups\<close>\<close>

text \<open>The body of the \<^verbatim>\<open>try\<close> for one target.\<close>

definition push_to :: "platform \<Rightarrow> plugin \<Rightarrow> string \<Rightarrow> world \<Rightarrow> (exn + unit) \<times> world" where
  "push_to L P target w =
    (case get_image_news L P w of
       (Inl e, w1) \<Rightarrow> (Inl e, w1)
     | (Inr None, w1) \<Rightarrow> (Inl TypeError, w1)
     | (Inr (Some (news_path, _)), w1) \<Rightarrow>
         (case send_message target news_path (logger (Info_push_image news_path) w1) of
            (Inl e, w2) \<Rightarrow> (Inl e, w2)
          | (Inr _, w2) \<Rightarrow> asyncio_sleep 2 (logger (Info_pushed target) w2)))"

fun send_loop :: "platform \<Rightarrow> plugin \<Rightarrow> string list \<Rightarrow> world \<Rightarrow> (exn + unit) \<times> world" where
  "send_loop L P [] w = (Inr (), w)"
| "send_loop L P (target # rest) w =
    (case push_to L P target w of
       (Inr _, w1) \<Rightarrow> send_loop L P rest w1
     | (Inl e, w1) \<Rightarrow>
         if is_Exception e then
           (case asyncio_sleep 2 (logger Exception_detail (logger (Error_push e) w1)) of
              (Inl e', w2) \<Rightarrow> (Inl e', w2)
            | (Inr _, w2) \<Rightarrow> send_loop L P rest w2)
         else (Inl e, w1))"

definition send_daily_news_to_groups ::
  "platform \<Rightarrow> plugin \<Rightarrow> world \<Rightarrow> (exn + unit) \<times> world" where
  "send_daily_news_to_groups L P w = send_loop L P (groups P) w"

subsection \<open>\<^verbatim>\<open>_delete_expired_news_files\<close>\<close>

text \<open>The body of the \<^verbatim>\<open>try\<close> for one file name.\<close>

definition sweep_file :: "platform \<Rightarrow> plugin \<Rightarrow> string \<Rightarrow> world \<Rightarrow> (exn + unit) \<times> world" where
  "sweep_file L P filename w =
    (case strptime_Ymd L (take 8 filename) of
       None \<Rightarrow> (Inl ValueError, w)
     | Some file_date \<Rightarrow>
         if date_of (now w) - file_date \<ge> save_days P then os_remove filename w
         else (Inr (), w))"

fun sweep :: "platform \<Rightarrow> plugin \<Rightarrow> string list \<Rightarrow> world \<Rightarrow> (exn + unit) \<times> world" where
  "sweep L P [] w = (Inr (), w)"
| "sweep L P (filename # rest) w =
    (case sweep_file L P filename w of
       (Inr _, w1) \<Rightarrow> sweep L P rest w1
     | (Inl e, w1) \<Rightarrow> if is_Exception e then sweep L P rest w1 else (Inl e, w1))"

definition delete_expired_news_files ::
  "platform \<Rightarrow> plugin \<Rightarrow> world \<Rightarrow> (exn + unit) \<times> world" where
  "delete_expired_news_files L P w =
    (if save_days P \<le> 0 then (Inl ValueError, w)
     else sweep L P (map fst (files w)) w)"

text \<open>The \<^verbatim>\<open>clean\<close> command: nothing catches what the sweep raises.\<close>

definition clean_news :: "platform \<Rightarrow> plugin \<Rightarrow> world \<Rightarrow> (exn + int) \<times> world" where
  "clean_news L P w =
    (case delete_expired_news_files L P w of
       (Inl e, w1) \<Rightarrow> (Inl e, w1)
     | (Inr _, w1) \<Rightarrow> (Inr (save_days P), w1))"

subsection \<open>\<^verbatim>\<open>_daily_task\<close>\<close>

text \<open>The body of the \<^verbatim>\<open>try\<close> of one iteration.\<close>

definition daily_cycle :: "platform \<Rightarrow> plugin \<Rightarrow> world \<Rightarrow> (exn + unit) \<times> world" where
  "daily_cycle L P w =
    (case calculate_sleep_time L P w of
       Inl e \<Rightarrow> (Inl e, w)
     | Inr sleep_time \<Rightarrow>
         (case asyncio_sleep sleep_time (logger (Info_next sleep_time) w) of
            (Inl e, w1) \<Rightarrow> (Inl e, w1)
          | (Inr _, w1) \<Rightarrow>
              (case update_news_files L P w1 of
                 (Inl e, w2) \<Rightarrow> (Inl e, w2)
               | (Inr _, w2) \<Rightarrow>
                   (case delete_expired_news_files L P w2 of
                      (Inl e, w3) \<Rightarrow> (Inl e, w3)
                    | (Inr _, w3) \<Rightarrow>
                        (case send_daily_news_to_groups L P w3 of
                           (Inl e, w4) \<Rightarrow> (Inl e, w4)
                         | (Inr _, w4) \<Rightarrow> asyncio_sleep 60 w4)))))"

text \<open>One iteration of \<^verbatim>\<open>while True\<close>: the \<^verbatim>\<open>try\<close> with its \<^verbatim>\<open>except Exception\<close>.\<close>

definition daily_iteration :: "platform \<Rightarrow> plugin \<Rightarrow> world \<Rightarrow> (exn + unit) \<times> world" where
  "daily_iteration L P w =
    (case daily_cycle L P w of
       (Inr _, w1) \<Rightarrow> (Inr (), w1)
     | (Inl e, w1) \<Rightarrow>
         if is_Exception e
         then asyncio_sleep 300 (emit Traceback (logger (Error_task e) w1))
         else (Inl e, w1))"

text \<open>
  The loop returns only when an exception leaves an iteration; \<open>None\<close> is the loop that
  runs forever.
\<close>

partial_function (option) daily_task :: "platform \<Rightarrow> plugin \<Rightarrow> world \<Rightarrow> (exn \<times> world) option" where
  "daily_task L P w =
    (case daily_iteration L P w of
       (Inl e, w1) \<Rightarrow> Some (e, w1)
     | (Inr _, w1) \<Rightarrow> daily_task L P w1)"

subsection \<open>A platform on ASCII text\<close>

text \<open>
  The library routines as they behave on ASCII text, for running the model on concrete
  inputs: \<^verbatim>\<open>int\<close> on an optionally signed decimal numeral with blanks around it and
  single underscores between digits, \<^verbatim>\<open>strptime\<close> with the format \<^verbatim>\<open>%Y%m%d\<close> (the
  alternatives of the month and of the day in the order the library tries them, the
  whole text consumed), \<^verbatim>\<open>strftime\<close> with four-digit years. A date is its proleptic
  Gregorian ordinal, as \<^verbatim>\<open>date.toordinal\<close> gives it.
\<close>

definition digit_val :: "char \<Rightarrow> int option" where
  "digit_val c = map_of (zip ''0123456789'' [0, 1, 2, 3, 4, 5, 6, 7, 8, 9]) c"

fun digits_val :: "int \<Rightarrow> string \<Rightarrow> int option" where
  "digits_val acc [] = Some acc"
| "digits_val acc (c # cs) =
    (case digit_val c of
       None \<Rightarrow> None
     | Some d \<Rightarrow> digits_val (acc * 10 + d) cs)"

definition is_blank :: "char \<Rightarrow> bool" where
  "is_blank c = (c \<in> set [CHR '' '', CHR 0x09, CHR 0x0A, CHR 0x0B, CHR 0x0C, CHR 0x0D])"

definition strip :: "string \<Rightarrow> string" where
  "strip s = rev (dropWhile is_blank (rev (dropWhile is_blank s)))"

text \<open>Single underscores between digits are dropped; any other underscore is an error.\<close>

fun digit_groups :: "string \<Rightarrow> string option" where
  "digit_groups [] = None"
| "digit_groups [c] = (if c = CHR ''_'' then None else Some [c])"
| "digit_groups (c # d # cs) =
    (if c = CHR ''_'' then None
     else if d = CHR ''_'' then
       (case digit_groups cs of None \<Rightarrow> None | Some r \<Rightarrow> Some (c # r))
     else
       (case digit_groups (d # cs) of None \<Rightarrow> None | Some r \<Rightarrow> Some (c # r)))"

definition unsigned_val :: "string \<Rightarrow> int option" where
  "unsigned_val s =
    (case digit_groups s of
       None \<Rightarrow> None
     | Some ds \<Rightarrow> digits_val 0 ds)"

definition ascii_int :: "string \<Rightarrow> int option" where
  "ascii_int s =
    (case strip s of
       [] \<Rightarrow> None
     | c # cs \<Rightarrow>
         if c = CHR ''-'' then map_option uminus (unsigned_val cs)
         else if c = CHR ''+'' then unsigned_val cs
         else unsigned_val (c # cs))"

definition is_leap :: "int \<Rightarrow> bool" where
  "is_leap year = (year mod 4 = 0 \<and> (year mod 100 \<noteq> 0 \<or> year mod 400 = 0))"

definition days_before_year :: "int \<Rightarrow> int" where
  "days_before_year year =
    (let y = year - 1 in y * 365 + y div 4 - y div 100 + y div 400)"

definition days_in_month :: "int \<Rightarrow> int \<Rightarrow> int" where
  "days_in_month year month =
    (if month = 2 \<and> is_leap year then 29
     else [31, 28, 31, 30, 31, 30, 31, 31, 30, 31, 30, 31] ! nat (month - 1))"

definition days_before_month :: "int \<Rightarrow> int \<Rightarrow> int" where
  "days_before_month year month = sum_list (map (days_in_month year) [1..month - 1])"

definition ymd2ord :: "int \<Rightarrow> int \<Rightarrow> int \<Rightarrow> int option" where
  "ymd2ord year month day =
    (if 1 \<le> year \<and> year \<le> 9999 \<and> 1 \<le> month \<and> month \<le> 12
        \<and> 1 \<le> day \<and> day \<le> days_in_month year month
     then Some (days_before_year year + days_before_month year month + day)
     else None)"

fun month_in :: "int list \<Rightarrow> int \<Rightarrow> int \<Rightarrow> int \<times> int" where
  "month_in [] month n = (month, n + 1)"
| "month_in (len # rest) month n =
    (if rest \<noteq> [] \<and> len \<le> n then month_in rest (month + 1) (n - len)
     else (month, n + 1))"

definition month_of :: "int \<Rightarrow> int \<Rightarrow> int \<times> int" where
  "month_of year n = month_in (map (days_in_month year) [1..12]) 1 n"

definition ord2ymd :: "int \<Rightarrow> int \<times> int \<times> int" where
  "ord2ymd ordinal =
    (let n = ordinal - 1;
         n400 = n div 146097; n = n mod 146097;
         n100 = n div 36524; n = n mod 36524;
         n4 = n div 1461; n = n mod 1461;
         n1 = n div 365; n = n mod 365;
         year = n400 * 400 + 1 + n100 * 100 + n4 * 4 + n1
     in if n1 = 4 \<or> n100 = 4 then (year - 1, 12, 31)
        else (case month_of year n of (month, day) \<Rightarrow> (year, month, day)))"

definition two_digits :: "int \<Rightarrow> string" where
  "two_digits n = [''0123456789'' ! nat (n div 10 mod 10), ''0123456789'' ! nat (n mod 10)]"

definition four_digits :: "int \<Rightarrow> string" where
  "four_digits n = two_digits (n div 100) @ two_digits n"

definition ascii_strftime_Ymd :: "int \<Rightarrow> string" where
  "ascii_strftime_Ymd ordinal =
    (case ord2ymd ordinal of
       (year, month, day) \<Rightarrow> four_digits year @ two_digits month @ two_digits day)"

definition ascii_strftime_iso :: "int \<Rightarrow> string" where
  "ascii_strftime_iso ordinal =
    (case ord2ymd ordinal of
       (year, month, day) \<Rightarrow>
         four_digits year @ ''-'' @ two_digits month @ ''-'' @ two_digits day)"

text \<open>
  The ways the text can start with a month, \<^verbatim>\<open>1[0-2]|0[1-9]|[1-9]\<close>, and with a day,
  \<^verbatim>\<open>3[01]|[12]\d|0[1-9]|[1-9]| [1-9]\<close>, each with the rest of the text, in the order of the
  alternatives.
\<close>

definition two_chars :: "(char \<Rightarrow> bool) \<Rightarrow> (char \<Rightarrow> bool) \<Rightarrow> string \<Rightarrow> (string \<times> string) list" where
  "two_chars p q s =
    (case s of
       c # d # r \<Rightarrow> if p c \<and> q d then [([c, d], r)] else []
     | _ \<Rightarrow> [])"

definition one_char :: "(char \<Rightarrow> bool) \<Rightarrow> string \<Rightarrow> (string \<times> string) list" where
  "one_char p s =
    (case s of
       c # r \<Rightarrow> if p c then [([c], r)] else []
     | _ \<Rightarrow> [])"

definition month_alternatives :: "string \<Rightarrow> (string \<times> string) list" where
  "month_alternatives s =
     two_chars (\<lambda>c. c = CHR ''1'') (\<lambda>c. c \<in> set ''012'') s
   @ two_chars (\<lambda>c. c = CHR ''0'') (\<lambda>c. c \<in> set ''123456789'') s
   @ one_char (\<lambda>c. c \<in> set ''123456789'') s"

definition day_alternatives :: "string \<Rightarrow> (string \<times> string) list" where
  "day_alternatives s =
     two_chars (\<lambda>c. c = CHR ''3'') (\<lambda>c. c \<in> set ''01'') s
   @ two_chars (\<lambda>c. c \<in> set ''12'') (\<lambda>c. c \<in> set ''0123456789'') s
   @ two_chars (\<lambda>c. c = CHR ''0'') (\<lambda>c. c \<in> set ''123456789'') s
   @ one_char (\<lambda>c. c \<in> set ''123456789'') s
   @ two_chars (\<lambda>c. c = CHR '' '') (\<lambda>c. c \<in> set ''123456789'') s"

definition ascii_strptime_Ymd :: "string \<Rightarrow> int option" where
  "ascii_strptime_Ymd s =
    (if length s < 4 \<or> \<not> (\<forall>c \<in> set (take 4 s). c \<in> set ''0123456789'') then None
     else
       (case concat (map (\<lambda>(m, r). map (\<lambda>(d, r'). (m, d, r')) (day_alternatives r))
                         (month_alternatives (drop 4 s))) of
          [] \<Rightarrow> None
        | (m, d, r) # _ \<Rightarrow>
            if r \<noteq> [] then None
            else
              (case (digits_val 0 (take 4 s), digits_val 0 m, digits_val 0 (dropWhile is_blank d)) of
                 (Some year, Some month, Some day) \<Rightarrow> ymd2ord year month day
               | _ \<Rightarrow> None)))"

definition ascii_platform :: platform where
  "ascii_platform =
    \<lparr>int_str = ascii_int,
     strptime_Ymd = ascii_strptime_Ymd,
     strftime_Ymd = ascii_strftime_Ymd,
     strftime_iso = ascii_strftime_iso\<rparr>"

section \<open>Vocabulary of the properties\<close>

definition known_news_type :: "plugin \<Rightarrow> bool" where
  "known_news_type P = (news_type P \<in> set [''vikiboss_api'', ''indirect'', ''direct''])"

text \<open>
  A file name is aged when the date parsed from its first eight characters lies at least
  \<^verbatim>\<open>save_days\<close> days before today; it is swept when it is aged and can be removed.
\<close>

definition aged :: "platform \<Rightarrow> plugin \<Rightarrow> world \<Rightarrow> string \<Rightarrow> bool" where
  "aged L P w filename =
    (case strptime_Ymd L (take 8 filename) of
       None \<Rightarrow> False
     | Some file_date \<Rightarrow> save_days P \<le> date_of (now w) - file_date)"

definition swept :: "platform \<Rightarrow> plugin \<Rightarrow> world \<Rightarrow> string \<Rightarrow> bool" where
  "swept L P w filename = (aged L P w filename \<and> filename \<notin> set (locked w))"

text \<open>
  What a run of the downloader leaves in the trace, read as marks: the start of an attempt
  (the \<^verbatim>\<open>logger.info\<close> that opens each branch), the failure of attempt \<open>k\<close> (the
  \<^verbatim>\<open>logger.error\<close> of the handler), the wait of one second, and the final error line.
\<close>

datatype mark = Started | Failed nat | Waited | Gave_up

fun mark_of :: "event \<Rightarrow> mark list" where
  "mark_of (Logged (Info_start url)) = [Started]"
| "mark_of (Logged (Info_fetch url)) = [Started]"
| "mark_of (Logged (Error_retry k n e)) = [Failed k]"
| "mark_of (Logged (Error_failed e)) = [Gave_up]"
| "mark_of (Sleep s) = (if s = 1 then [Waited] else [])"
| "mark_of _ = []"

definition marks :: "event list \<Rightarrow> mark list" where
  "marks evs = concat (map mark_of evs)"

text \<open>
  The marks of a run in which the first \<open>n\<close> attempts fail: every failed attempt but the
  third is followed by a wait and a new attempt; the third is followed by the final error.
\<close>

definition expected_marks :: "nat \<Rightarrow> mark list" where
  "expected_marks n =
    (if n < 3 then concat (map (\<lambda>k. [Started, Failed k, Waited]) [1..<n + 1]) @ [Started]
     else concat (map (\<lambda>k. [Started, Failed k, Waited]) [1..<3]) @ [Started, Failed 3, Gave_up])"

text \<open>
  What a broadcast leaves in the trace: the call of the send primitive for a target, the
  error line of the handler, and the pacing delay of two seconds.
\<close>

datatype bmark = Sent string | Errored | Paced

fun bmark_of :: "event \<Rightarrow> bmark list" where
  "bmark_of (Send target chain) = [Sent target]"
| "bmark_of (Logged (Error_push e)) = [Errored]"
| "bmark_of (Sleep s) = (if s = 2 then [Paced] else [])"
| "bmark_of _ = []"

definition bmarks :: "event list \<Rightarrow> bmark list" where
  "bmarks evs = concat (map bmark_of evs)"

text \<open>
  The marks of a broadcast to the targets in order, given the outcomes of the send
  primitive in order (an exhausted list of outcomes is success).
\<close>

fun expected_broadcast :: "string list \<Rightarrow> string option list \<Rightarrow> bmark list" where
  "expected_broadcast [] rs = []"
| "expected_broadcast (t # ts) [] = [Sent t, Paced] @ expected_broadcast ts []"
| "expected_broadcast (t # ts) (None # rs) = [Sent t, Paced] @ expected_broadcast ts rs"
| "expected_broadcast (t # ts) (Some s # rs) = [Sent t, Errored, Paced] @ expected_broadcast ts rs"

definition requests :: "event list \<Rightarrow> string list" where
  "requests evs = concat (map (\<lambda>e. case e of Get url \<Rightarrow> [url] | _ \<Rightarrow> []) evs)"

definition attempts_in :: "event list \<Rightarrow> nat" where
  "attempts_in evs = length (filter (\<lambda>m. m = Started) (marks evs))"

definition failures_in :: "event list \<Rightarrow> nat" where
  "failures_in evs =
     length (filter (\<lambda>m. case m of Failed k \<Rightarrow> True | _ \<Rightarrow> False) (marks evs))"

definition waits_in :: "event list \<Rightarrow> nat" where
  "waits_in evs = length (filter (\<lambda>m. m = Waited) (marks evs))"

definition paces :: "event list \<Rightarrow> nat" where
  "paces evs = length (filter (\<lambda>m. m = Paced) (bmarks evs))"

subsection \<open>Invariants of the proofs\<close>

text \<open>
  What one attempt of a known news type keeps and adds when nothing cancels the task: it
  ends in a success or in an exception that the handler catches, and it leaves exactly
  one start mark.
\<close>

definition attempt_kept :: "world \<Rightarrow> (exn + bool) \<times> world \<Rightarrow> bool" where
  "attempt_kept w rw =
    (case rw of (r, w1) \<Rightarrow>
       cancel_after w1 = None \<and> send_results w1 = send_results w \<and> locked w1 = locked w
       \<and> now w1 = now w \<and> r \<noteq> Inl CancelledError \<and> r \<noteq> Inr False
       \<and> bmarks (trace w1) = bmarks (trace w)
       \<and> marks (trace w1) = marks (trace w) @ [Started])"

text \<open>The world in which the next attempt starts after attempt \<open>a\<close> failed with \<open>e\<close>.\<close>

definition retry_world :: "nat \<Rightarrow> exn \<Rightarrow> world \<Rightarrow> world" where
  "retry_world a e w =
    (emit (Sleep 1) (logger (Error_retry a retries e) w))\<lparr>now := now w + 1000000\<rparr>"

text \<open>
  The attempts of one run, as the specification counts them. Attempt \<open>a\<close> is made in the
  world \<open>w\<close>, with \<open>k\<close> attempts left. When it fails and is not the last one, the next
  attempt is made in the world that the error line and the wait of one second leave. The
  result is the list of the exceptions of the attempts that failed before the first
  success, in order, and the world in which the last attempt made ended.
\<close>

fun failed_attempts ::
  "plugin \<Rightarrow> string \<Rightarrow> string \<Rightarrow> nat \<Rightarrow> nat \<Rightarrow> world \<Rightarrow> exn list \<times> world" where
  "failed_attempts P path date a 0 w = ([], w)"
| "failed_attempts P path date a (Suc k) w =
    (case attempt_body P path date w of
       (Inl e, w1) \<Rightarrow>
         (if k = 0 then ([e], w1)
          else (case failed_attempts P path date (Suc a) k (retry_world a e w1) of
                  (es, w') \<Rightarrow> (e # es, w')))
     | (Inr _, w1) \<Rightarrow> ([], w1))"

text \<open>A run of the downloader with \<open>n\<close> failed attempts.\<close>

definition run_of ::
  "world \<Rightarrow> string \<Rightarrow> nat \<Rightarrow> (exn + (content \<times> bool) option) \<times> world \<Rightarrow> bool" where
  "run_of w path n rw =
    (case rw of (r, w') \<Rightarrow>
       n \<le> 3 \<and> cancel_after w' = None \<and> send_results w' = send_results w
       \<and> locked w' = locked w \<and> bmarks (trace w') = bmarks (trace w)
       \<and> marks (trace w') = marks (trace w) @ expected_marks n
       \<and> (if n < 3 then r = Inr (Some (Path path, True))
          else \<exists>e. e \<noteq> CancelledError \<and> r = Inr (Some (Report e, False))))"

text \<open>
  A run of the downloader whose failed attempts are \<open>es\<close> and whose last attempt ended in
  \<open>v\<close>: after a success the run ends in \<open>v\<close>; after three failures it reports the
  last exception and ends with the two error lines.
\<close>

definition seq_of :: "world \<Rightarrow> string \<Rightarrow> exn list \<Rightarrow> world \<Rightarrow> (exn + (content \<times> bool) option) \<times> world \<Rightarrow> bool" where
  "seq_of w path es v rw =
    (run_of w path (length es) rw \<and>
     (if length es < 3 then snd rw = v
      else fst rw = Inr (Some (Report (last es), False))
           \<and> snd rw = logger (Error_failed (last es)) (logger (Error_retry 3 3 (last es)) v)))"

text \<open>What the downloader leaves alone.\<close>

definition steady :: "world \<Rightarrow> world \<Rightarrow> bool" where
  "steady w w' =
    (cancel_after w' = None \<and> send_results w' = send_results w \<and> locked w' = locked w
     \<and> bmarks (trace w') = bmarks (trace w))"

text \<open>A later world keeps the trace of an earlier one as a prefix.\<close>

definition extends :: "world \<Rightarrow> world \<Rightarrow> bool" where
  "extends w w' = (\<exists>evs. trace w' = trace w @ evs)"

text \<open>The first request of an attempt in indirect mode, answered with status 200 and a JSON object.\<close>

definition asked :: "plugin \<Rightarrow> reply list \<Rightarrow> world \<Rightarrow> world" where
  "asked P rs w = (emit (Get (api P)) (logger (Info_fetch (api P)) w))\<lparr>replies := rs\<rparr>"

subsection \<open>Example configurations and worlds\<close>

text \<open>Monday 1 January 2024 has ordinal 738886; the clock shows 08:00:01 on that day.\<close>

definition morning_plugin :: plugin where
  "morning_plugin =
    \<lparr>news_type = ''direct'', api = [], img_key = [], date_key = [],
     img_url = ''http://x/y.jpg'', groups = [''g1'', ''g2''],
     push_time = ''08:00'', save_days = 7\<rparr>"

definition just_past_eight :: world where
  "just_past_eight =
    \<lparr>now = datetime_at 738886 8 0 1 0, files = [], locked = [], replies = [],
     send_results = [], cancel_after = None, trace = []\<rparr>"

text \<open>
  A cache directory on 1 January 2024: a file of 1 December that cannot be removed, files
  of 24 December (eight days old) and 29 December (three days old), and a file whose name
  is not a date.
\<close>

definition cache_world :: world where
  "cache_world =
    \<lparr>now = datetime_at 738886 8 0 1 0,
     files = [(''20231201.jpeg'', ''a''), (''20231224.jpeg'', ''b''),
              (''20231229.jpeg'', ''c''), (''README.md'', ''d'')],
     locked = [''20231201.jpeg''], replies = [],
     send_results = [], cancel_after = None, trace = []\<rparr>"

text \<open>
  A network that times out, then answers 500, then answers 200 with the image; and a
  network that never answers, with a send primitive that accepts the first message and
  refuses the second.
\<close>

definition flaky_world :: world where
  "flaky_world =
    \<lparr>now = datetime_at 738886 8 0 1 0, files = [], locked = [],
     replies = [Fails ''timeout'',
                Responds \<lparr>status = 500, body = ''oops'', json_body = None\<rparr>,
                Responds \<lparr>status = 200, body = ''image'', json_body = None\<rparr>],
     send_results = [], cancel_after = None, trace = []\<rparr>"

definition dead_world :: world where
  "dead_world =
    \<lparr>now = datetime_at 738886 8 0 1 0, files = [], locked = [],
     replies = [],
     send_results = [None, Some ''refused''], cancel_after = None, trace = []\<rparr>"

text \<open>
  A plugin in indirect mode whose configuration names the fields \<^verbatim>\<open>url\<close> and \<^verbatim>\<open>day\<close>, a
  plugin with a news type that is none of the three, and replies of the indirect API: one
  accepted, one rejected, one that carries the image URL only under the configured name.
\<close>

definition indirect_plugin :: plugin where
  "indirect_plugin =
    \<lparr>news_type = ''indirect'', api = ''http://api/news'', img_key = ''url'', date_key = ''day'',
     img_url = [], groups = [''g1'', ''g2''], push_time = ''08:00'', save_days = 7\<rparr>"

definition text_plugin :: plugin where
  "text_plugin =
    \<lparr>news_type = ''text'', api = [], img_key = [], date_key = [],
     img_url = [], groups = [''g1'', ''g2''], push_time = ''08:00'', save_days = 7\<rparr>"

definition accepted_fields :: "(string \<times> json) list" where
  "accepted_fields =
    [(''code'', JNum 200), (''imageUrl'', JStr ''http://x/y.jpg''),
     (''url'', JStr ''http://other/z.jpg''), (''day'', JStr ''2024-01-01'')]"

definition rejected_fields :: "(string \<times> json) list" where
  "rejected_fields =
    [(''code'', JNum 500), (''msg'', JStr ''bad''),
     (''url'', JStr ''http://other/z.jpg''), (''day'', JStr ''2024-01-01'')]"

definition configured_fields :: "(string \<times> json) list" where
  "configured_fields =
    [(''code'', JNum 200), (''url'', JStr ''http://other/z.jpg''), (''day'', JStr ''2024-01-01'')]"

definition json_response :: "(string \<times> json) list \<Rightarrow> response" where
  "json_response kvs = \<lparr>status = 200, body = ''{...}'', json_body = Some (JObj kvs)\<rparr>"

definition image_response :: response where
  "image_response = \<lparr>status = 200, body = ''image'', json_body = None\<rparr>"

definition accepted_reply :: reply where
  "accepted_reply = Responds (json_response accepted_fields)"

definition rejected_reply :: reply where
  "rejected_reply = Responds (json_response rejected_fields)"

definition configured_reply :: reply where
  "configured_reply = Responds (json_response configured_fields)"

definition image_reply :: reply where
  "image_reply = Responds image_response"

definition api_world :: "int \<Rightarrow> reply list \<Rightarrow> world" where
  "api_world ordinal rs =
    \<lparr>now = datetime_at ordinal 8 0 1 0, files = [], locked = [], replies = rs,
     send_results = [], cancel_after = None, trace = []\<rparr>"

definition cached_world :: world where
  "cached_world =
    \<lparr>now = datetime_at 738886 8 0 1 0, files = [(''20240101.jpeg'', ''old'')], locked = [],
     replies = [image_reply], send_results = [], cancel_after = None, trace = []\<rparr>"


definition careless_plugin :: plugin where
  "careless_plugin =
    \<lparr>news_type = ''direct'', api = [], img_key = [], date_key = [],
     img_url = ''http://x/y.jpg'', groups = [''g1'', ''g2''],
     push_time = ''08:00'', save_days = 0\<rparr>"

text \<open>
  The clock at 07:30:00, the example directory with nothing locked, and a reply with
  status 404.
\<close>

definition half_past_seven :: world where
  "half_past_seven =
    \<lparr>now = datetime_at 738886 7 30 0 0, files = [], locked = [], replies = [],
     send_results = [], cancel_after = None, trace = []\<rparr>"

definition open_cache_world :: world where
  "open_cache_world = cache_world\<lparr>locked := []\<rparr>"

definition not_found_reply :: reply where
  "not_found_reply = Responds \<lparr>status = 404, body = [], json_body = None\<rparr>"

section \<open>The primitives\<close>


lemma emit_fields [simp]:
  "trace (emit e w) = trace w @ [e]"
  "now (emit e w) = now w"
  "files (emit e w) = files w"
  "locked (emit e w) = locked w"
  "replies (emit e w) = replies w"
  "send_results (emit e w) = send_results w"
  "cancel_after (emit e w) = cancel_after w"
  by (simp_all add: emit_def)

lemma logger_fields [simp]:
  "trace (logger l w) = trace w @ [Logged l]"
  "now (logger l w) = now w"
  "files (logger l w) = files w"
  "locked (logger l w) = locked w"
  "replies (logger l w) = replies w"
  "send_results (logger l w) = send_results w"
  "cancel_after (logger l w) = cancel_after w"
  by (simp_all add: logger_def)

lemma marks_append [simp]: "marks (xs @ ys) = marks xs @ marks ys"
  by (simp add: marks_def)

lemma marks_Nil [simp]: "marks [] = []"
  by (simp add: marks_def)

lemma marks_Cons [simp]: "marks (e # evs) = mark_of e @ marks evs"
  by (simp add: marks_def)

lemma bmarks_append [simp]: "bmarks (xs @ ys) = bmarks xs @ bmarks ys"
  by (simp add: bmarks_def)

lemma bmarks_Nil [simp]: "bmarks [] = []"
  by (simp add: bmarks_def)

lemma bmarks_Cons [simp]: "bmarks (e # evs) = bmark_of e @ bmarks evs"
  by (simp add: bmarks_def)

lemma suspend_calm: "cancel_after w = None \<Longrightarrow> suspend w = (Inr (), w)"
  by (simp add: suspend_def)


lemma asyncio_sleep_calm:
  "cancel_after w = None \<Longrightarrow>
   asyncio_sleep s w = (Inr (), (emit (Sleep s) w)\<lparr>now := now w + max 0 \<lfloor>s * 1000000\<rfloor>\<rparr>)"
  by (simp add: asyncio_sleep_def suspend_calm)


lemma http_get_calm:
  "cancel_after w = None \<Longrightarrow>
   http_get url w =
     (case replies w of
        [] \<Rightarrow> (Inl (NetworkError []), emit (Get url) w)
      | Fails s # rs \<Rightarrow> (Inl (NetworkError s), (emit (Get url) w)\<lparr>replies := rs\<rparr>)
      | Responds r # rs \<Rightarrow> (Inr r, (emit (Get url) w)\<lparr>replies := rs\<rparr>))"
  by (simp add: http_get_def suspend_calm)

lemma send_message_calm:
  "cancel_after w = None \<Longrightarrow>
   send_message t c w =
     (case send_results w of
        [] \<Rightarrow> (Inr (), emit (Send t c) w)
      | None # rs \<Rightarrow> (Inr (), (emit (Send t c) w)\<lparr>send_results := rs\<rparr>)
      | Some s # rs \<Rightarrow> (Inl (SendError s), (emit (Send t c) w)\<lparr>send_results := rs\<rparr>))"
  by (simp add: send_message_def suspend_calm)

lemma write_file_cases:
  "write_file path data w =
     (if path \<in> set (locked w) then (Inl OSError, w)
      else (Inr (), emit (Write path) (w\<lparr>files := store path data (files w)\<rparr>)))"
  by (simp add: write_file_def)

section \<open>The sleep computation\<close>

lemma date_of_datetime_at:
  assumes "0 \<le> hour" and "hour \<le> 23" and "0 \<le> minute" and "minute \<le> 59"
  shows "date_of (datetime_at ordinal hour minute 0 0) = ordinal"
proof -
  let ?x = "((hour * 60 + minute) * 60 + 0) * 1000000 + 0"
  have "0 \<le> ?x" using assms by simp
  moreover have "?x < day_us" using assms by (simp add: day_us_def)
  ultimately have "(ordinal * day_us + ?x) div day_us = ordinal"
    by (simp add: day_us_def div_pos_pos_trivial)
  then show ?thesis by (simp add: date_of_def datetime_at_def add.assoc)
qed

lemma datetime_at_next_day:
  "datetime_at (ordinal + 1) hour minute second microsecond =
   datetime_at ordinal hour minute second microsecond + day_us"
  by (simp add: datetime_at_def algebra_simps)

lemma now_before_next_day:
  assumes "0 \<le> hour" and "0 \<le> minute"
  shows "t < datetime_at (date_of t + 1) hour minute 0 0"
proof -
  have a: "(t div day_us) * day_us + t mod day_us = t" by (rule div_mult_mod_eq)
  have b: "t mod day_us < day_us" by (simp add: day_us_def)
  have c: "0 \<le> ((hour * 60 + minute) * 60 + 0) * 1000000 + (0::int)" using assms by simp
  have "datetime_at (date_of t + 1) hour minute 0 0 =
        (t div day_us) * day_us + day_us + (((hour * 60 + minute) * 60 + 0) * 1000000 + 0)"
    by (simp add: datetime_at_def date_of_def algebra_simps)
  with a b c show ?thesis by linarith
qed

text \<open>
  C1. For a push time that parses to a valid hour and minute and a clock on a date other
  than the last one the calendar has, \<^verbatim>\<open>_calculate_sleep_time\<close> returns a strictly positive
  number of seconds \<open>d\<close>, and \<open>now + d\<close> is today at \<open>(hour, minute, 0, 0)\<close> if that instant
  is strictly after \<open>now\<close>, and tomorrow at \<open>(hour, minute, 0, 0)\<close> otherwise. The seconds are
  the exact quotient of the microseconds of the time difference, which \<^verbatim>\<open>total_seconds\<close>
  rounds to a float.
\<close>

theorem calculate_sleep_time_next_push:
  assumes "parse_push_time L (push_time P) = Inr (hour, minute)"
    and "0 \<le> hour" and "hour \<le> 23" and "0 \<le> minute" and "minute \<le> 59"
    and "1 \<le> date_of (now w)" and "date_of (now w) < max_ordinal"
  shows "\<exists>d. calculate_sleep_time L P w = Inr d \<and> 0 < d \<and>
           total_seconds (now w) + d =
             total_seconds
               (if now w < datetime_at (date_of (now w)) hour minute 0 0
                then datetime_at (date_of (now w)) hour minute 0 0
                else datetime_at (date_of (now w) + 1) hour minute 0 0)"
proof (cases "now w < datetime_at (date_of (now w)) hour minute 0 0")
  case True
  then have "calculate_sleep_time L P w =
      Inr (total_seconds (datetime_at (date_of (now w)) hour minute 0 0 - now w))"
    using assms by (simp add: calculate_sleep_time_def replace_time_def)
  with True show ?thesis by (simp add: total_seconds_def diff_divide_distrib)
next
  case False
  let ?today = "datetime_at (date_of (now w)) hour minute 0 0"
  have d: "date_of ?today = date_of (now w)"
    using assms by (simp add: date_of_datetime_at)
  have "add_days ?today 1 = Inr (?today + day_us)"
    using assms d by (simp add: add_days_def)
  with False have "calculate_sleep_time L P w =
      Inr (total_seconds (?today + day_us - now w))"
    using assms by (simp add: calculate_sleep_time_def replace_time_def)
  moreover have "now w < ?today + day_us"
    using now_before_next_day [of hour minute "now w"] assms
    by (simp add: datetime_at_next_day)
  ultimately show ?thesis
    using False
    by (simp add: total_seconds_def diff_divide_distrib datetime_at_next_day add_divide_distrib)
qed

text \<open>
  Push time 08:00: with the clock at 08:00:01 the wake is 08:00:00 on the next day, with
  the clock at 07:30:00 it is 08:00:00 on the same day.
\<close>

theorem calculate_sleep_time_next_push_witness:
  "calculate_sleep_time ascii_platform morning_plugin just_past_eight = Inr 86399 \<and>
   (\<exists>d. calculate_sleep_time ascii_platform morning_plugin just_past_eight = Inr d \<and> 0 < d \<and>
      total_seconds (now just_past_eight) + d = total_seconds (datetime_at 738887 8 0 0 0)) \<and>
   calculate_sleep_time ascii_platform morning_plugin half_past_seven = Inr 1800 \<and>
   (\<exists>d. calculate_sleep_time ascii_platform morning_plugin half_past_seven = Inr d \<and> 0 < d \<and>
      total_seconds (now half_past_seven) + d = total_seconds (datetime_at 738886 8 0 0 0))"
proof -
  have p: "parse_push_time ascii_platform (push_time morning_plugin) = Inr (8, 0)"
    by code_simp
  have d: "date_of (now just_past_eight) = 738886" "date_of (now half_past_seven) = 738886"
    by code_simp+
  have lt: "\<not> now just_past_eight < datetime_at 738886 8 0 0 0"
    "now half_past_seven < datetime_at 738886 8 0 0 0" by code_simp+
  have v: "calculate_sleep_time ascii_platform morning_plugin just_past_eight = Inr 86399"
    "calculate_sleep_time ascii_platform morning_plugin half_past_seven = Inr 1800"
    by code_simp+
  show ?thesis
    using calculate_sleep_time_next_push [OF p, of just_past_eight]
      calculate_sleep_time_next_push [OF p, of half_past_seven] d lt v
    by (simp add: max_ordinal_def)
qed

section \<open>The cache sweep\<close>

lemma filter_absent: "n \<notin> set (map fst fs) \<Longrightarrow> filter (\<lambda>f. fst f \<noteq> n) fs = fs"
  by (induction fs) auto

lemma sweep_file_effect:
  "\<exists>r. sweep_file L P n w =
     (r, if swept L P w n \<and> file_exists n w
         then emit (Remove n) (w\<lparr>files := filter (\<lambda>f. fst f \<noteq> n) (files w)\<rparr>) else w)
     \<and> r \<noteq> Inl CancelledError"
  by (simp add: sweep_file_def swept_def aged_def os_remove_def split: option.splits)

lemma aged_emit [simp]: "aged L P (emit e (w\<lparr>files := fs\<rparr>)) n = aged L P w n"
  by (simp add: aged_def emit_def split: option.splits)

lemma swept_emit [simp]: "swept L P (emit e (w\<lparr>files := fs\<rparr>)) n = swept L P w n"
  unfolding swept_def aged_emit by (simp add: emit_def)

lemma sweep_files:
  "\<exists>w'. sweep L P names w = (Inr (), w') \<and>
     files w' = filter (\<lambda>f. \<not> (fst f \<in> set names \<and> swept L P w (fst f))) (files w) \<and>
     now w' = now w \<and> locked w' = locked w \<and> replies w' = replies w \<and>
     send_results w' = send_results w \<and> cancel_after w' = cancel_after w"
proof (induction names arbitrary: w)
  case Nil
  then show ?case by simp
next
  case (Cons n names)
  define w1 where "w1 = (if swept L P w n \<and> file_exists n w
         then emit (Remove n) (w\<lparr>files := filter (\<lambda>f. fst f \<noteq> n) (files w)\<rparr>) else w)"
  obtain r where r: "sweep_file L P n w = (r, w1)" and nc: "r \<noteq> Inl CancelledError"
    using sweep_file_effect [of L P n w] unfolding w1_def by blast
  have step: "sweep L P (n # names) w = sweep L P names w1"
    using r nc by (cases r) (simp_all add: is_Exception_def)
  have sw: "\<And>m. swept L P w1 m = swept L P w m" by (simp add: w1_def)
  have same: "now w1 = now w" "locked w1 = locked w" "replies w1 = replies w"
      "send_results w1 = send_results w" "cancel_after w1 = cancel_after w"
    by (simp_all add: w1_def emit_def)
  obtain w' where w': "sweep L P names w1 = (Inr (), w')"
     and f: "files w' = filter (\<lambda>f. \<not> (fst f \<in> set names \<and> swept L P w (fst f))) (files w1)"
     and rest: "now w' = now w1" "locked w' = locked w1" "replies w' = replies w1"
        "send_results w' = send_results w1" "cancel_after w' = cancel_after w1"
    using Cons.IH [of w1] unfolding sw by blast
  have "files w' = filter (\<lambda>f. \<not> (fst f \<in> set (n # names) \<and> swept L P w (fst f))) (files w)"
  proof (cases "swept L P w n \<and> file_exists n w")
    case True
    then have "files w1 = filter (\<lambda>f. fst f \<noteq> n) (files w)"
      by (simp add: w1_def emit_def)
    with True show ?thesis unfolding f
      by (auto intro: filter_cong)
  next
    case False
    then have "w1 = w" unfolding w1_def by (rule if_not_P)
    moreover from False have "swept L P w n \<Longrightarrow> n \<notin> set (map fst (files w))"
      by (simp add: file_exists_def)
    then have "filter (\<lambda>f. \<not> (fst f \<in> set (n # names) \<and> swept L P w (fst f))) (files w)
       = filter (\<lambda>f. \<not> (fst f \<in> set names \<and> swept L P w (fst f))) (files w)"
      by (intro filter_cong) auto
    ultimately show ?thesis unfolding f by simp
  qed
  with step w' rest same show ?case by simp
qed

lemma delete_expired_effect:
  assumes "0 < save_days P"
  shows "\<exists>w'. delete_expired_news_files L P w = (Inr (), w') \<and>
     files w' = filter (\<lambda>f. \<not> swept L P w (fst f)) (files w) \<and>
     now w' = now w \<and> locked w' = locked w \<and> replies w' = replies w \<and>
     send_results w' = send_results w \<and> cancel_after w' = cancel_after w"
proof -
  have "filter (\<lambda>f. \<not> (fst f \<in> set (map fst (files w)) \<and> swept L P w (fst f))) (files w)
     = filter (\<lambda>f. \<not> swept L P w (fst f)) (files w)"
    by (intro filter_cong) auto
  then show ?thesis
    using assms sweep_files [of L P "map fst (files w)" w]
    by (simp add: delete_expired_news_files_def)
qed

text \<open>
  C2. With \<^verbatim>\<open>save_days > 0\<close> the sweep returns normally, and the directory it leaves is
  the old one without the files that are aged and whose removal did not fail: a file stays
  if and only if its name does not parse, or parses to a date less than \<^verbatim>\<open>save_days\<close> days
  before today, or its removal raised. A failed removal therefore stops nothing: the files
  listed after it are treated in the same way.
\<close>

theorem delete_expired_files:
  assumes "0 < save_days P"
  shows "\<exists>w'. delete_expired_news_files L P w = (Inr (), w') \<and>
     files w' = filter (\<lambda>f. \<not> (aged L P w (fst f) \<and> fst f \<notin> set (locked w))) (files w) \<and>
     (\<forall>f \<in> set (files w). strptime_Ymd L (take 8 (fst f)) = None \<longrightarrow> f \<in> set (files w')) \<and>
     (locked w = [] \<longrightarrow>
        (\<forall>f \<in> set (files w). f \<notin> set (files w') \<longleftrightarrow> aged L P w (fst f)))"
proof -
  obtain w' where w': "delete_expired_news_files L P w = (Inr (), w')"
    and f: "files w' = filter (\<lambda>f. \<not> swept L P w (fst f)) (files w)"
    using delete_expired_effect [OF assms] by blast
  have "\<forall>f \<in> set (files w). strptime_Ymd L (take 8 (fst f)) = None \<longrightarrow> f \<in> set (files w')"
    by (simp add: f swept_def aged_def)
  moreover have "locked w = [] \<longrightarrow>
        (\<forall>f \<in> set (files w). f \<notin> set (files w') \<longleftrightarrow> aged L P w (fst f))"
    by (simp add: f swept_def)
  ultimately show ?thesis using w' f by (simp add: swept_def)
qed

text \<open>
  Seven days of retention on 1 January 2024: the file of 24 December goes, the file of
  29 December and the file without a date stay, and so does the file of 1 December, whose
  removal fails before the others are looked at; with nothing locked it goes as well.
\<close>

theorem delete_expired_files_witness:
  "0 < save_days morning_plugin \<and>
   (\<exists>w'. delete_expired_news_files ascii_platform morning_plugin cache_world = (Inr (), w') \<and>
      map fst (files w') = [''20231201.jpeg'', ''20231229.jpeg'', ''README.md'']) \<and>
   locked open_cache_world = [] \<and>
   (\<exists>w'. delete_expired_news_files ascii_platform morning_plugin open_cache_world = (Inr (), w') \<and>
      map fst (files w') = [''20231229.jpeg'', ''README.md''])"
proof -
  have s: "0 < save_days morning_plugin" by code_simp
  have l: "locked open_cache_world = []" by code_simp
  have a: "filter (\<lambda>f. \<not> (aged ascii_platform morning_plugin cache_world (fst f)
                        \<and> fst f \<notin> set (locked cache_world))) (files cache_world)
        = [(''20231201.jpeg'', ''a''), (''20231229.jpeg'', ''c''), (''README.md'', ''d'')]"
    by code_simp
  have b: "filter (\<lambda>f. \<not> (aged ascii_platform morning_plugin open_cache_world (fst f)
                        \<and> fst f \<notin> set (locked open_cache_world))) (files open_cache_world)
        = [(''20231229.jpeg'', ''c''), (''README.md'', ''d'')]"
    by code_simp
  from delete_expired_files [OF s, of ascii_platform cache_world] a
  have x: "\<exists>w'. delete_expired_news_files ascii_platform morning_plugin cache_world = (Inr (), w') \<and>
      map fst (files w') = [''20231201.jpeg'', ''20231229.jpeg'', ''README.md'']" by auto
  from delete_expired_files [OF s, of ascii_platform open_cache_world] b
  have y: "\<exists>w'. delete_expired_news_files ascii_platform morning_plugin open_cache_world = (Inr (), w') \<and>
      map fst (files w') = [''20231229.jpeg'', ''README.md'']" by auto
  from s l x y show ?thesis by (intro conjI)
qed

section \<open>The downloader\<close>

lemma attempt_vikiboss_kept:
  "cancel_after w = None \<Longrightarrow> attempt_kept w (attempt_vikiboss path date w)"
  by (simp add: attempt_kept_def attempt_vikiboss_def http_get_calm write_file_cases Let_def
      split: list.splits reply.splits)

lemma attempt_direct_kept:
  "cancel_after w = None \<Longrightarrow> attempt_kept w (attempt_direct P path w)"
  by (simp add: attempt_kept_def attempt_direct_def http_get_calm write_file_cases Let_def
      split: list.splits reply.splits)

lemma attempt_indirect_kept:
  "cancel_after w = None \<Longrightarrow> attempt_kept w (attempt_indirect P path w)"
  by (simp add: attempt_kept_def attempt_indirect_def http_get_calm write_file_cases Let_def
        dict_get_def
      split: list.splits reply.splits option.splits json.splits)

lemma attempt_body_kept:
  "cancel_after w = None \<Longrightarrow> known_news_type P \<Longrightarrow> attempt_kept w (attempt_body P path date w)"
  by (auto simp: attempt_body_def known_news_type_def attempt_vikiboss_kept
       attempt_direct_kept attempt_indirect_kept)

lemma attempt_body_unknown:
  "\<not> known_news_type P \<Longrightarrow> attempt_body P path date w = (Inr False, w)"
  by (simp add: attempt_body_def known_news_type_def)

lemma loop_success:
  "attempt_body P path date w = (Inr True, w1) \<Longrightarrow>
   download_loop P path date (Suc k) w = (Inr (Some (Path path, True)), w1)"
  by simp

lemma loop_retry:
  assumes "attempt_body P path date w = (Inl e, w1)" and "e \<noteq> CancelledError"
    and "cancel_after w1 = None" and "0 < k" and "k < 3"
  shows "download_loop P path date (Suc k) w =
         download_loop P path date k (retry_world (3 - k) e w1)"
proof -
  have "retries - Suc k \<noteq> retries - 1" using assms by (simp add: retries_def)
  moreover have "retries - Suc k + 1 = 3 - k" using assms by (simp add: retries_def)
  ultimately show ?thesis
    using assms
    by (simp add: is_Exception_def Let_def asyncio_sleep_calm retry_world_def)
qed

lemma loop_give_up:
  assumes "attempt_body P path date w = (Inl e, w1)" and "e \<noteq> CancelledError"
  shows "download_loop P path date (Suc 0) w =
         (Inr (Some (Report e, False)), logger (Error_failed e) (logger (Error_retry 3 retries e) w1))"
  using assms by (simp add: is_Exception_def Let_def retries_def)

lemma retry_world_fields [simp]:
  "cancel_after (retry_world a e w) = cancel_after w"
  "send_results (retry_world a e w) = send_results w"
  "locked (retry_world a e w) = locked w"
  "trace (retry_world a e w) = trace w @ [Logged (Error_retry a retries e), Sleep 1]"
  by (simp_all add: retry_world_def)

lemma expected_marks_simps:
  "expected_marks 0 = [Started]"
  "expected_marks (Suc 0) = [Started, Failed 1, Waited, Started]"
  "expected_marks 2 = [Started, Failed 1, Waited, Started, Failed 2, Waited, Started]"
  "expected_marks 3 = [Started, Failed 1, Waited, Started, Failed 2, Waited, Started, Failed 3, Gave_up]"
  by (simp_all add: expected_marks_def upt_rec)

text \<open>The outcome of an attempt is a success or an exception that the handler catches.\<close>

lemma attempt_outcome:
  assumes "cancel_after w = None" and "known_news_type P"
  obtains w1 where "attempt_body P path date w = (Inr True, w1)" "cancel_after w1 = None"
      "send_results w1 = send_results w" "locked w1 = locked w"
      "bmarks (trace w1) = bmarks (trace w)" "marks (trace w1) = marks (trace w) @ [Started]"
  | e w1 where "attempt_body P path date w = (Inl e, w1)" "e \<noteq> CancelledError"
      "cancel_after w1 = None"
      "send_results w1 = send_results w" "locked w1 = locked w"
      "bmarks (trace w1) = bmarks (trace w)" "marks (trace w1) = marks (trace w) @ [Started]"
proof -
  obtain r w1 where r: "attempt_body P path date w = (r, w1)" by (cases "attempt_body P path date w")
  have k: "attempt_kept w (r, w1)" using attempt_body_kept [OF assms, of path date] r by simp
  show thesis
  proof (cases r)
    case (Inl e)
    with k r that(2) show ?thesis by (simp add: attempt_kept_def)
  next
    case (Inr b)
    with k r that(1) show ?thesis by (simp add: attempt_kept_def)
  qed
qed

lemma download_loop_run:
  assumes "cancel_after w = None" and "known_news_type P"
  shows "\<exists>n. run_of w path n (download_loop P path date 3 w)"
proof -
  have three: "(3::nat) = Suc (Suc (Suc 0))" by simp
  show ?thesis
  proof (rule attempt_outcome [OF assms, of path date])
    fix w1 assume a: "attempt_body P path date w = (Inr True, w1)" "cancel_after w1 = None"
      "send_results w1 = send_results w" "locked w1 = locked w"
      "bmarks (trace w1) = bmarks (trace w)" "marks (trace w1) = marks (trace w) @ [Started]"
    have "download_loop P path date 3 w = (Inr (Some (Path path, True)), w1)"
      unfolding three using a(1) by (rule loop_success)
    with a have "run_of w path 0 (download_loop P path date 3 w)"
      by (simp add: run_of_def expected_marks_simps)
    then show ?thesis ..
  next
    fix e1 w1 assume a: "attempt_body P path date w = (Inl e1, w1)" "e1 \<noteq> CancelledError"
      "cancel_after w1 = None"
      "send_results w1 = send_results w" "locked w1 = locked w"
      "bmarks (trace w1) = bmarks (trace w)" "marks (trace w1) = marks (trace w) @ [Started]"
    define v where "v = retry_world 1 e1 w1"
    have s1: "download_loop P path date 3 w = download_loop P path date 2 v"
      using loop_retry [OF a(1-3), of 2] by (simp add: v_def three numeral_2_eq_2)
    have v: "cancel_after v = None" "send_results v = send_results w" "locked v = locked w"
      "bmarks (trace v) = bmarks (trace w)"
      "marks (trace v) = marks (trace w) @ [Started, Failed 1, Waited]"
      using a by (simp_all add: v_def)
    show ?thesis
    proof (rule attempt_outcome [OF v(1) assms(2), of path date])
      fix w2 assume b: "attempt_body P path date v = (Inr True, w2)" "cancel_after w2 = None"
        "send_results w2 = send_results v" "locked w2 = locked v"
        "bmarks (trace w2) = bmarks (trace v)" "marks (trace w2) = marks (trace v) @ [Started]"
      have "download_loop P path date 2 v = (Inr (Some (Path path, True)), w2)"
        unfolding numeral_2_eq_2 using b(1) by (rule loop_success)
      with s1 b v have "run_of w path 1 (download_loop P path date 3 w)"
        by (simp add: run_of_def expected_marks_simps)
      then show ?thesis ..
    next
      fix e2 w2 assume b: "attempt_body P path date v = (Inl e2, w2)" "e2 \<noteq> CancelledError"
        "cancel_after w2 = None"
        "send_results w2 = send_results v" "locked w2 = locked v"
        "bmarks (trace w2) = bmarks (trace v)" "marks (trace w2) = marks (trace v) @ [Started]"
      define u where "u = retry_world 2 e2 w2"
      have s2: "download_loop P path date 2 v = download_loop P path date 1 u"
        using loop_retry [OF b(1-3), of 1] by (simp add: u_def numeral_2_eq_2)
      have u: "cancel_after u = None" "send_results u = send_results w" "locked u = locked w"
        "bmarks (trace u) = bmarks (trace w)"
        "marks (trace u) = marks (trace w) @ [Started, Failed 1, Waited, Started, Failed 2, Waited]"
        using b v by (simp_all add: u_def)
      show ?thesis
      proof (rule attempt_outcome [OF u(1) assms(2), of path date])
        fix w3 assume c: "attempt_body P path date u = (Inr True, w3)" "cancel_after w3 = None"
          "send_results w3 = send_results u" "locked w3 = locked u"
          "bmarks (trace w3) = bmarks (trace u)" "marks (trace w3) = marks (trace u) @ [Started]"
        have "download_loop P path date 1 u = (Inr (Some (Path path, True)), w3)"
          unfolding One_nat_def using c(1) by (rule loop_success)
        with s1 s2 c u have "run_of w path 2 (download_loop P path date 3 w)"
          by (simp add: run_of_def expected_marks_simps)
        then show ?thesis ..
      next
        fix e3 w3 assume c: "attempt_body P path date u = (Inl e3, w3)" "e3 \<noteq> CancelledError"
          "cancel_after w3 = None"
          "send_results w3 = send_results u" "locked w3 = locked u"
          "bmarks (trace w3) = bmarks (trace u)" "marks (trace w3) = marks (trace u) @ [Started]"
        have "download_loop P path date 1 u =
            (Inr (Some (Report e3, False)), logger (Error_failed e3) (logger (Error_retry 3 retries e3) w3))"
          unfolding One_nat_def using c(1,2) by (rule loop_give_up)
        with s1 s2 c u have "run_of w path 3 (download_loop P path date 3 w)"
          by (simp add: run_of_def expected_marks_simps)
        then show ?thesis ..
      qed
    qed
  qed
qed

lemma steady_refl: "cancel_after w = None \<Longrightarrow> steady w w"
  by (simp add: steady_def)

lemma steady_trans: "steady w w1 \<Longrightarrow> steady w1 w2 \<Longrightarrow> steady w w2"
  by (simp add: steady_def)

lemma download_loop_unknown:
  "\<not> known_news_type P \<Longrightarrow> download_loop P path date k w = (Inr None, w)"
  by (induction k) (simp_all add: attempt_body_unknown)

lemma download_news_unknown:
  "\<not> known_news_type P \<Longrightarrow> download_news L P path w = (Inr None, w)"
  by (simp add: download_news_def download_loop_unknown)

lemma download_news_run:
  assumes "cancel_after w = None" and "known_news_type P"
  shows "\<exists>n. run_of w path n (download_news L P path w)"
  using download_loop_run [OF assms] by (simp add: download_news_def retries_def)

lemma download_news_steady:
  assumes "cancel_after w = None"
  shows "\<exists>x w'. download_news L P path w = (Inr x, w') \<and> steady w w'
            \<and> (known_news_type P \<longrightarrow> x \<noteq> None)"
proof (cases "known_news_type P")
  case True
  obtain n where "run_of w path n (download_news L P path w)"
    using download_news_run [OF assms True] by blast
  then show ?thesis
    by (cases "download_news L P path w") (auto simp: run_of_def steady_def split: if_splits)
next
  case False
  then show ?thesis using assms by (simp add: download_news_unknown steady_def)
qed

lemma get_image_news_steady:
  assumes "cancel_after w = None"
  shows "\<exists>x w'. get_image_news L P w = (Inr x, w') \<and> steady w w'
            \<and> (known_news_type P \<longrightarrow> x \<noteq> None)"
proof -
  let ?p = "strftime_Ymd L (date_of (now w)) @ ''.jpeg''"
  let ?w1 = "logger (Info_path ?p) w"
  have s: "steady w ?w1" using assms by (simp add: steady_def)
  show ?thesis
  proof (cases "file_exists ?p ?w1")
    case True
    then have "get_image_news L P w = (Inr (Some (Path ?p, True)), ?w1)"
      by (simp add: get_image_news_def get_news_file_path_def Let_def)
    with s show ?thesis by auto
  next
    case False
    then have g: "get_image_news L P w = download_news L P ?p ?w1"
      by (simp add: get_image_news_def get_news_file_path_def Let_def)
    have "cancel_after ?w1 = None" using assms by simp
    from download_news_steady [OF this, of L P ?p] g s show ?thesis
      by (auto intro: steady_trans)
  qed
qed

lemma update_news_files_steady:
  assumes "cancel_after w = None"
  shows "\<exists>w'. update_news_files L P w = (Inr (), w') \<and> steady w w'"
proof -
  let ?w0 = "logger Info_update w"
  let ?p = "strftime_Ymd L (date_of (now ?w0)) @ ''.jpeg''"
  let ?w1 = "logger (Info_path ?p) ?w0"
  have s: "steady w ?w1" using assms by (simp add: steady_def)
  have "cancel_after ?w1 = None" using assms by simp
  from download_news_steady [OF this, of L P ?p] obtain x w' where
    "download_news L P ?p ?w1 = (Inr x, w')" "steady ?w1 w'" by blast
  with s show ?thesis
    by (auto simp: update_news_files_def get_news_file_path_def Let_def intro: steady_trans)
qed

lemma upto3: "n \<le> 3 \<Longrightarrow> n = 0 \<or> n = Suc 0 \<or> n = 2 \<or> n = (3::nat)"
  by arith

lemma failures_in_append [simp]: "failures_in (xs @ ys) = failures_in xs + failures_in ys"
  by (simp add: failures_in_def)

lemma expected_counts:
  assumes "n \<le> 3"
  shows "length (filter (\<lambda>m. m = Started) (expected_marks n)) = min (n + 1) 3"
    and "length (filter (\<lambda>m. case m of Failed k \<Rightarrow> True | _ \<Rightarrow> False) (expected_marks n)) = n"
    and "length (filter (\<lambda>m. m = Waited) (expected_marks n)) = min (n + 1) 3 - 1"
    and "expected_marks n = [Started] \<longleftrightarrow> n = 0"
  using upto3 [OF assms] by (auto simp: expected_marks_simps)

lemma attempt_plain_success:
  assumes "cancel_after w = None" and "known_news_type P" and "news_type P \<noteq> ''indirect''"
    and "replies w = Responds resp # rs" and "status resp = 200" and "path \<notin> set (locked w)"
  shows "\<exists>w1. attempt_body P path date w = (Inr True, w1)"
  using assms
  by (auto simp: attempt_body_def known_news_type_def attempt_vikiboss_def attempt_direct_def
      http_get_calm write_file_cases Let_def)

lemma extends_refl [simp]: "extends w w"
  by (simp add: extends_def)

lemma extends_trans: "extends w w1 \<Longrightarrow> extends w1 w2 \<Longrightarrow> extends w w2"
  by (auto simp: extends_def)

lemma extends_emit: "extends w w1 \<Longrightarrow> extends w (emit e w1)"
  by (auto simp: extends_def)

lemma extends_logger: "extends w w1 \<Longrightarrow> extends w (logger l w1)"
  by (auto simp: extends_def)

lemma extends_now [simp]: "extends w (w1\<lparr>now := t\<rparr>) = extends w w1"
  by (simp add: extends_def)

lemma attempt_body_extends:
  assumes "cancel_after w = None"
  shows "extends w (snd (attempt_body P path date w))"
proof -
  have "extends w (snd (attempt_vikiboss path date w))"
    using assms
    by (simp add: extends_def attempt_vikiboss_def http_get_calm write_file_cases Let_def
        split: list.splits reply.splits)
  moreover have "extends w (snd (attempt_direct P path w))"
    using assms
    by (simp add: extends_def attempt_direct_def http_get_calm write_file_cases Let_def
        split: list.splits reply.splits)
  moreover have "extends w (snd (attempt_indirect P path w))"
    using assms
    by (simp add: extends_def attempt_indirect_def http_get_calm write_file_cases Let_def
          dict_get_def
        split: list.splits reply.splits option.splits json.splits)
  ultimately show ?thesis by (simp add: attempt_body_def)
qed

lemma download_loop_extends:
  assumes "cancel_after w = None" and "known_news_type P"
  shows "extends w (snd (download_loop P path date k w))"
  using assms(1)
proof (induction k arbitrary: w)
  case 0
  then show ?case by simp
next
  case (Suc k)
  obtain r w1 where a: "attempt_body P path date w = (r, w1)"
    by (cases "attempt_body P path date w")
  have k: "attempt_kept w (r, w1)"
    using attempt_body_kept [OF Suc.prems assms(2), of path date] a by simp
  then have c1: "cancel_after w1 = None" and nc: "r \<noteq> Inl CancelledError" and nf: "r \<noteq> Inr False"
    by (simp_all add: attempt_kept_def)
  have e1: "extends w w1" using attempt_body_extends [OF Suc.prems, of P path date] a by simp
  show ?case
  proof (cases r)
    case (Inr b)
    with nf a e1 show ?thesis by simp
  next
    case (Inl e)
    with nc have ne: "e \<noteq> CancelledError" by simp
    let ?w2 = "logger (Error_retry (retries - Suc k + 1) retries e) w1"
    have e2: "extends w ?w2" using e1 by (rule extends_logger)
    show ?thesis
    proof (cases "retries - Suc k = retries - 1")
      case True
      with a Inl ne extends_logger [OF e2] show ?thesis
        by (simp add: is_Exception_def Let_def)
    next
      case False
      let ?w3 = "retry_world (retries - Suc k + 1) e w1"
      have s: "asyncio_sleep 1 ?w2 = (Inr (), ?w3)"
        using c1 by (simp add: asyncio_sleep_calm retry_world_def)
      have c3: "cancel_after ?w3 = None" using c1 by simp
      have e3: "extends w ?w3" using extends_emit [OF e2] by (simp add: retry_world_def)
      from False a Inl ne s have "download_loop P path date (Suc k) w = download_loop P path date k ?w3"
        by (simp add: is_Exception_def Let_def)
      with Suc.IH [OF c3] e3 show ?thesis by (auto intro: extends_trans)
    qed
  qed
qed

text \<open>A failed first attempt is the first of three.\<close>

lemma first_failure_logged:
  assumes "cancel_after w = None" and "known_news_type P"
    and "attempt_body P path (strftime_iso L (date_of (now w))) w = (Inl e, w1)"
  shows "\<exists>evs. trace (snd (download_news L P path w))
           = trace w1 @ [Logged (Error_retry 1 3 e), Sleep 1] @ evs"
proof -
  let ?date = "strftime_iso L (date_of (now w))"
  have k: "attempt_kept w (Inl e, w1)"
    using attempt_body_kept [OF assms(1,2), of path ?date] assms(3) by simp
  then have c1: "cancel_after w1 = None" and ne: "e \<noteq> CancelledError"
    by (simp_all add: attempt_kept_def)
  have "download_loop P path ?date 3 w = download_loop P path ?date 2 (retry_world 1 e w1)"
    using loop_retry [OF assms(3) ne c1, of 2] by (simp add: numeral_3_eq_3 numeral_2_eq_2)
  moreover have "extends (retry_world 1 e w1) (snd (download_loop P path ?date 2 (retry_world 1 e w1)))"
    using c1 by (intro download_loop_extends assms(2)) simp
  ultimately show ?thesis
    by (auto simp: download_news_def retries_def extends_def)
qed

lemma map_of_store [simp]: "map_of (store p d fs) p = Some d"
  by (induction fs) auto

lemma indirect_rejected:
  assumes "news_type P = ''indirect''" and "cancel_after w = None"
    and "replies w = Responds resp # rs" and "status resp = 200"
    and "json_body resp = Some (JObj kvs)" and "map_of kvs ''code'' \<noteq> Some (JNum 200)"
  shows "attempt_body P path date w = (Inl (Exception (Api_error (map_of kvs ''msg''))), asked P rs w)"
  using assms
  by (simp add: attempt_body_def attempt_indirect_def http_get_calm dict_get_def asked_def Let_def)

lemma indirect_no_url:
  assumes "news_type P = ''indirect''" and "cancel_after w = None"
    and "replies w = Responds resp # rs" and "status resp = 200"
    and "json_body resp = Some (JObj kvs)" and "map_of kvs ''code'' = Some (JNum 200)"
    and "\<not> truthy (map_of kvs ''imageUrl'')"
  shows "attempt_body P path date w = (Inl (Exception Missing_image_url), asked P rs w)"
  using assms
  by (simp add: attempt_body_def attempt_indirect_def http_get_calm dict_get_def asked_def Let_def)

lemma indirect_second_get:
  assumes "news_type P = ''indirect''" and "cancel_after w = None"
    and "replies w = Responds resp # rs" and "status resp = 200"
    and "json_body resp = Some (JObj kvs)" and "map_of kvs ''code'' = Some (JNum 200)"
    and "map_of kvs ''imageUrl'' = Some (JStr u)" and "u \<noteq> []"
  shows "attempt_body P path date w =
     (case http_get u (logger (Info_image (JStr u)) (asked P rs w)) of
        (Inl e, w2) \<Rightarrow> (Inl e, w2)
      | (Inr img_response, w2) \<Rightarrow>
          if status img_response = 200 then
            (case write_file path (body img_response) w2 of
               (Inl e, w3) \<Rightarrow> (Inl e, w3)
             | (Inr _, w3) \<Rightarrow> (Inr True, w3))
          else (Inl (Exception (Image_http (status img_response))), w2))"
  using assms
  by (simp add: attempt_body_def attempt_indirect_def http_get_calm dict_get_def asked_def Let_def)

lemma indirect_date_free:
  "news_type P = ''indirect'' \<Longrightarrow> attempt_body P path date' w = attempt_body P path date w"
  by (simp add: attempt_body_def)

lemma asked_fields [simp]:
  "cancel_after (asked P rs w) = cancel_after w"
  "replies (asked P rs w) = rs"
  "locked (asked P rs w) = locked w"
  "files (asked P rs w) = files w"
  "trace (asked P rs w) = trace w @ [Logged (Info_fetch (api P)), Get (api P)]"
  by (simp_all add: asked_def)

lemma indirect_first_request:
  assumes "news_type P = ''indirect''" and "cancel_after w = None"
    and "replies w = Responds resp # rs"
  shows "\<exists>evs. trace (snd (attempt_body P path date w))
           = trace w @ [Logged (Info_fetch (api P)), Get (api P)] @ evs"
  using assms
  by (simp add: attempt_body_def attempt_indirect_def http_get_calm write_file_cases Let_def
        dict_get_def
      split: list.splits reply.splits option.splits json.splits)

lemma indirect_accepted:
  assumes "news_type P = ''indirect''" and "cancel_after w = None"
    and "replies w = Responds resp # rs" and "status resp = 200"
    and "json_body resp = Some (JObj kvs)" and "map_of kvs ''code'' = Some (JNum 200)"
    and "map_of kvs ''imageUrl'' = Some (JStr u)" and "u \<noteq> []"
  shows "(\<exists>evs. trace (snd (attempt_body P path date w))
             = trace (asked P rs w) @ [Logged (Info_image (JStr u)), Get u] @ evs)"
    and "fst (attempt_body P path date w) = Inr True \<longleftrightarrow>
           (\<exists>img rs'. rs = Responds img # rs' \<and> status img = 200) \<and> path \<notin> set (locked w)"
    and "\<forall>img rs'. rs = Responds img # rs' \<and> status img = 200 \<and> path \<notin> set (locked w) \<longrightarrow>
           map_of (files (snd (attempt_body P path date w))) path = Some (body img)"
    and "\<forall>img rs'. rs = Responds img # rs' \<and> status img \<noteq> 200 \<longrightarrow>
           fst (attempt_body P path date w) = Inl (Exception (Image_http (status img)))"
  unfolding indirect_second_get [OF assms]
  using assms(2)
  by (auto simp: http_get_calm write_file_cases split: list.splits reply.splits)

lemma expected_marks_Suc:
  "expected_marks (Suc (Suc 0)) = [Started, Failed 1, Waited, Started, Failed 2, Waited, Started]"
  "expected_marks (Suc (Suc (Suc 0)))
     = [Started, Failed 1, Waited, Started, Failed 2, Waited, Started, Failed 3, Gave_up]"
  using expected_marks_simps(3,4) by (simp_all add: numeral_2_eq_2 numeral_3_eq_3)

lemma download_loop_seq:
  assumes "cancel_after w = None" and "known_news_type P"
  shows "\<exists>es v. failed_attempts P path date 1 3 w = (es, v)
            \<and> seq_of w path es v (download_loop P path date 3 w)"
proof -
  have three: "(3::nat) = Suc (Suc (Suc 0))" by simp
  show ?thesis
  proof (rule attempt_outcome [OF assms, of path date])
    fix w1 assume a: "attempt_body P path date w = (Inr True, w1)" "cancel_after w1 = None"
      "send_results w1 = send_results w" "locked w1 = locked w"
      "bmarks (trace w1) = bmarks (trace w)" "marks (trace w1) = marks (trace w) @ [Started]"
    have d: "download_loop P path date 3 w = (Inr (Some (Path path, True)), w1)"
      unfolding three using a(1) by (rule loop_success)
    have f: "failed_attempts P path date 1 3 w = ([], w1)"
      using a(1) by (simp add: three)
    from a d have "seq_of w path [] w1 (download_loop P path date 3 w)"
      by (simp add: seq_of_def run_of_def expected_marks_simps expected_marks_Suc)
    with f show ?thesis by blast
  next
    fix e1 w1 assume a: "attempt_body P path date w = (Inl e1, w1)" "e1 \<noteq> CancelledError"
      "cancel_after w1 = None"
      "send_results w1 = send_results w" "locked w1 = locked w"
      "bmarks (trace w1) = bmarks (trace w)" "marks (trace w1) = marks (trace w) @ [Started]"
    define v where "v = retry_world 1 e1 w1"
    have s1: "download_loop P path date 3 w = download_loop P path date 2 v"
      using loop_retry [OF a(1-3), of 2] by (simp add: v_def three numeral_2_eq_2)
    have f1: "failed_attempts P path date 1 3 w =
        (case failed_attempts P path date 2 2 v of (es, w') \<Rightarrow> (e1 # es, w'))"
      using a(1) by (simp add: three v_def numeral_2_eq_2)
    have v: "cancel_after v = None" "send_results v = send_results w" "locked v = locked w"
      "bmarks (trace v) = bmarks (trace w)"
      "marks (trace v) = marks (trace w) @ [Started, Failed 1, Waited]"
      using a by (simp_all add: v_def)
    show ?thesis
    proof (rule attempt_outcome [OF v(1) assms(2), of path date])
      fix w2 assume b: "attempt_body P path date v = (Inr True, w2)" "cancel_after w2 = None"
        "send_results w2 = send_results v" "locked w2 = locked v"
        "bmarks (trace w2) = bmarks (trace v)" "marks (trace w2) = marks (trace v) @ [Started]"
      have d: "download_loop P path date 2 v = (Inr (Some (Path path, True)), w2)"
        unfolding numeral_2_eq_2 using b(1) by (rule loop_success)
      have f: "failed_attempts P path date 1 3 w = ([e1], w2)"
        using f1 b(1) by (simp add: numeral_2_eq_2)
      from s1 d b v have "seq_of w path [e1] w2 (download_loop P path date 3 w)"
        by (simp add: seq_of_def run_of_def expected_marks_simps expected_marks_Suc)
      with f show ?thesis by blast
    next
      fix e2 w2 assume b: "attempt_body P path date v = (Inl e2, w2)" "e2 \<noteq> CancelledError"
        "cancel_after w2 = None"
        "send_results w2 = send_results v" "locked w2 = locked v"
        "bmarks (trace w2) = bmarks (trace v)" "marks (trace w2) = marks (trace v) @ [Started]"
      define u where "u = retry_world 2 e2 w2"
      have s2: "download_loop P path date 2 v = download_loop P path date 1 u"
        using loop_retry [OF b(1-3), of 1] by (simp add: u_def numeral_2_eq_2)
      have f2: "failed_attempts P path date 1 3 w =
          (case failed_attempts P path date 3 1 u of (es, w') \<Rightarrow> (e1 # e2 # es, w'))"
        using f1 b(1) by (simp add: numeral_2_eq_2 numeral_3_eq_3 u_def split: prod.splits)
      have u: "cancel_after u = None" "send_results u = send_results w" "locked u = locked w"
        "bmarks (trace u) = bmarks (trace w)"
        "marks (trace u) = marks (trace w) @ [Started, Failed 1, Waited, Started, Failed 2, Waited]"
        using b v by (simp_all add: u_def)
      show ?thesis
      proof (rule attempt_outcome [OF u(1) assms(2), of path date])
        fix w3 assume c: "attempt_body P path date u = (Inr True, w3)" "cancel_after w3 = None"
          "send_results w3 = send_results u" "locked w3 = locked u"
          "bmarks (trace w3) = bmarks (trace u)" "marks (trace w3) = marks (trace u) @ [Started]"
        have d: "download_loop P path date 1 u = (Inr (Some (Path path, True)), w3)"
          unfolding One_nat_def using c(1) by (rule loop_success)
        have f: "failed_attempts P path date 1 3 w = ([e1, e2], w3)"
          using f2 c(1) by simp
        from s1 s2 d c u have "seq_of w path [e1, e2] w3 (download_loop P path date 3 w)"
          by (simp add: seq_of_def run_of_def expected_marks_simps expected_marks_Suc)
        with f show ?thesis by blast
      next
        fix e3 w3 assume c: "attempt_body P path date u = (Inl e3, w3)" "e3 \<noteq> CancelledError"
          "cancel_after w3 = None"
          "send_results w3 = send_results u" "locked w3 = locked u"
          "bmarks (trace w3) = bmarks (trace u)" "marks (trace w3) = marks (trace u) @ [Started]"
        have d: "download_loop P path date 1 u =
            (Inr (Some (Report e3, False)), logger (Error_failed e3) (logger (Error_retry 3 retries e3) w3))"
          unfolding One_nat_def using c(1,2) by (rule loop_give_up)
        have f: "failed_attempts P path date 1 3 w = ([e1, e2, e3], w3)"
          using f2 c(1) by simp
        from s1 s2 d c u have "seq_of w path [e1, e2, e3] w3 (download_loop P path date 3 w)"
          by (simp add: seq_of_def run_of_def expected_marks_simps expected_marks_Suc retries_def)
        with f show ?thesis by blast
      qed
    qed
  qed
qed

text \<open>
  C3. For a known news type and a task that is not cancelled, \<^verbatim>\<open>_download_news\<close> returns a
  pair and never raises. Let \<open>es\<close> be the exceptions of the attempts that fail before the
  first one that returns, each attempt after the first being made after the error line
  and the wait of one second that follow a failure. Then the trace shows
  \<open>min (length es + 1) 3\<close> attempts, one failure line for each failed attempt, one wait of
  one second after each failed attempt except the third, and nothing after the attempt
  that succeeds. The result is the path with \<^verbatim>\<open>True\<close> exactly when fewer than three
  attempts fail, and the run then ends where the successful attempt ended; it is the
  error text around the last exception with \<^verbatim>\<open>False\<close> exactly when all three attempts
  fail. An attempt that returns ends the run at once, and in the direct and proxy modes a
  first reply with HTTP status 200 (the path being writable) is such an attempt.
\<close>

theorem download_news_attempts:
  assumes "known_news_type P" and "cancel_after w = None"
  shows "\<exists>es v r w'.
        failed_attempts P path (strftime_iso L (date_of (now w))) 1 3 w = (es, v)
      \<and> download_news L P path w = (Inr (Some r), w') \<and> length es \<le> 3
      \<and> marks (trace w') = marks (trace w) @ expected_marks (length es)
      \<and> failures_in (trace w') = failures_in (trace w) + length es
      \<and> attempts_in (trace w') = attempts_in (trace w) + min (length es + 1) 3
      \<and> waits_in (trace w') = waits_in (trace w) + (min (length es + 1) 3 - 1)
      \<and> (r = (Path path, True) \<longleftrightarrow> length es < 3)
      \<and> ((\<exists>e. r = (Report e, False)) \<longleftrightarrow> length es = 3)
      \<and> (length es < 3 \<longrightarrow> w' = v)
      \<and> (length es = 3 \<longrightarrow>
            r = (Report (last es), False)
            \<and> w' = logger (Error_failed (last es)) (logger (Error_retry 3 3 (last es)) v))
      \<and> (\<forall>w1. attempt_body P path (strftime_iso L (date_of (now w))) w = (Inr True, w1)
             \<longrightarrow> es = [] \<and> w' = w1)
      \<and> (news_type P \<noteq> ''indirect'' \<and> path \<notin> set (locked w)
           \<and> (\<exists>resp rs. replies w = Responds resp # rs \<and> status resp = 200) \<longrightarrow> es = [])"
proof -
  let ?date = "strftime_iso L (date_of (now w))"
  obtain es v where fa: "failed_attempts P path ?date 1 3 w = (es, v)"
    and sq: "seq_of w path es v (download_loop P path ?date 3 w)"
    using download_loop_seq [OF assms(2,1), of path ?date] by blast
  have dl: "download_news L P path w = download_loop P path ?date 3 w"
    by (simp add: download_news_def retries_def)
  obtain x w' where d: "download_news L P path w = (x, w')"
    by (cases "download_news L P path w")
  from sq d dl have sq': "seq_of w path es v (x, w')" by simp
  then have run: "run_of w path (length es) (x, w')"
    and fin: "if length es < 3 then w' = v
      else x = Inr (Some (Report (last es), False))
           \<and> w' = logger (Error_failed (last es)) (logger (Error_retry 3 3 (last es)) v)"
    by (simp_all add: seq_of_def cong: if_cong)
  from run have n: "length es \<le> 3"
    and m: "marks (trace w') = marks (trace w) @ expected_marks (length es)"
    and x: "if length es < 3 then x = Inr (Some (Path path, True))
            else \<exists>e. e \<noteq> CancelledError \<and> x = Inr (Some (Report e, False))"
    by (simp_all add: run_of_def)
  from x obtain r where r: "x = Inr (Some r)" "r = (Path path, True) \<longleftrightarrow> length es < 3"
    "(\<exists>e. r = (Report e, False)) \<longleftrightarrow> length es = 3"
    using n by (cases "length es < 3") auto
  have lt: "length es < 3 \<longrightarrow> w' = v" using fin by (auto split: if_splits)
  have eq: "length es = 3 \<longrightarrow>
            r = (Report (last es), False)
            \<and> w' = logger (Error_failed (last es)) (logger (Error_retry 3 3 (last es)) v)"
    using fin r(1) by (auto split: if_splits)
  have first: "es = [] \<and> w' = w1" if a: "attempt_body P path ?date w = (Inr True, w1)" for w1
  proof -
    have "failed_attempts P path ?date 1 3 w = ([], w1)"
      using a by (simp add: numeral_3_eq_3)
    with fa have "es = []" "v = w1" by simp_all
    with lt show ?thesis by simp
  qed
  have plain: "es = []" if "news_type P \<noteq> ''indirect''" "path \<notin> set (locked w)"
    "replies w = Responds resp # rs" "status resp = 200" for resp rs
    using attempt_plain_success [OF assms(2,1) that(1,3,4,2), of ?date] first by blast
  have "failures_in (trace w') = failures_in (trace w) + length es"
    using m expected_counts(2) [OF n] by (simp add: failures_in_def)
  moreover have "attempts_in (trace w') = attempts_in (trace w) + min (length es + 1) 3"
    using m expected_counts(1) [OF n] by (simp add: attempts_in_def)
  moreover have "waits_in (trace w') = waits_in (trace w) + (min (length es + 1) 3 - 1)"
    using m expected_counts(3) [OF n] by (simp add: waits_in_def)
  ultimately show ?thesis
    using fa d r n m lt eq first plain by blast
qed

text \<open>
  A timeout, a status 500 and then a status 200: two failed attempts, three attempts, two
  waits, the path returned. A status 200 at once: one attempt. No answer at all: three
  failed attempts, three attempts, two waits and the error text.
\<close>

theorem download_news_attempts_witness:
  "known_news_type morning_plugin \<and> cancel_after flaky_world = None \<and>
   (\<exists>v w'. failed_attempts morning_plugin ''20240101.jpeg''
              (strftime_iso ascii_platform (date_of (now flaky_world))) 1 3 flaky_world
            = ([NetworkError ''timeout'', Exception (Api_status 500)], v)
      \<and> download_news ascii_platform morning_plugin ''20240101.jpeg'' flaky_world
            = (Inr (Some (Path ''20240101.jpeg'', True)), w')
      \<and> w' = v
      \<and> marks (trace w') = expected_marks 2
      \<and> attempts_in (trace w') = 3 \<and> waits_in (trace w') = 2) \<and>
   (\<exists>w'. download_news ascii_platform morning_plugin ''20240101.jpeg''
           (api_world 738886 [image_reply]) = (Inr (Some (Path ''20240101.jpeg'', True)), w')
      \<and> marks (trace w') = [Started]) \<and>
   (\<exists>v w'. failed_attempts morning_plugin ''20240101.jpeg''
              (strftime_iso ascii_platform (date_of (now dead_world))) 1 3 dead_world
            = ([NetworkError [], NetworkError [], NetworkError []], v)
      \<and> download_news ascii_platform morning_plugin ''20240101.jpeg'' dead_world
           = (Inr (Some (Report (NetworkError []), False)), w')
      \<and> marks (trace w') = expected_marks 3
      \<and> attempts_in (trace w') = 3 \<and> waits_in (trace w') = 2)"
proof -
  have k: "known_news_type morning_plugin" by code_simp
  have c: "cancel_after flaky_world = None" by code_simp
  have t: "trace flaky_world = []" "trace dead_world = []" by code_simp+
  have f1: "fst (failed_attempts morning_plugin ''20240101.jpeg''
              (strftime_iso ascii_platform (date_of (now flaky_world))) 1 3 flaky_world)
        = [NetworkError ''timeout'', Exception (Api_status 500)]" by code_simp
  from download_news_attempts [OF k c, where L = ascii_platform and path = "''20240101.jpeg''"]
  obtain es v r w' where a0:
    "failed_attempts morning_plugin ''20240101.jpeg''
       (strftime_iso ascii_platform (date_of (now flaky_world))) 1 3 flaky_world = (es, v)"
    "download_news ascii_platform morning_plugin ''20240101.jpeg'' flaky_world = (Inr (Some r), w')"
    "marks (trace w') = marks (trace flaky_world) @ expected_marks (length es)"
    "attempts_in (trace w') = attempts_in (trace flaky_world) + min (length es + 1) 3"
    "waits_in (trace w') = waits_in (trace flaky_world) + (min (length es + 1) 3 - 1)"
    "r = (Path ''20240101.jpeg'', True) \<longleftrightarrow> length es < 3"
    "length es < 3 \<longrightarrow> w' = v"
    by (elim exE conjE)
  from a0(1) f1 have es: "es = [NetworkError ''timeout'', Exception (Api_status 500)]" by simp
  with a0 t have a: "\<exists>v w'. failed_attempts morning_plugin ''20240101.jpeg''
              (strftime_iso ascii_platform (date_of (now flaky_world))) 1 3 flaky_world
            = ([NetworkError ''timeout'', Exception (Api_status 500)], v)
      \<and> download_news ascii_platform morning_plugin ''20240101.jpeg'' flaky_world
            = (Inr (Some (Path ''20240101.jpeg'', True)), w')
      \<and> w' = v
      \<and> marks (trace w') = expected_marks 2
      \<and> attempts_in (trace w') = 3 \<and> waits_in (trace w') = 2"
    by (simp add: attempts_in_def waits_in_def expected_marks_simps expected_marks_Suc)
  have c2: "cancel_after (api_world 738886 [image_reply]) = None" by (simp add: api_world_def)
  have q: "news_type morning_plugin \<noteq> ''indirect''"
    "''20240101.jpeg'' \<notin> set (locked (api_world 738886 [image_reply]))"
    "replies (api_world 738886 [image_reply]) = Responds image_response # []"
    "status image_response = 200" "trace (api_world 738886 [image_reply]) = []"
    by (simp_all add: morning_plugin_def api_world_def image_reply_def image_response_def)
  from download_news_attempts [OF k c2, where L = ascii_platform and path = "''20240101.jpeg''"]
  obtain es2 :: "exn list" and v2 r2 w2 where b0:
    "download_news ascii_platform morning_plugin ''20240101.jpeg'' (api_world 738886 [image_reply])
       = (Inr (Some r2), w2)"
    "marks (trace w2) = marks (trace (api_world 738886 [image_reply])) @ expected_marks (length es2)"
    "r2 = (Path ''20240101.jpeg'', True) \<longleftrightarrow> length es2 < 3"
    "news_type morning_plugin \<noteq> ''indirect''
       \<and> ''20240101.jpeg'' \<notin> set (locked (api_world 738886 [image_reply]))
       \<and> (\<exists>resp rs. replies (api_world 738886 [image_reply]) = Responds resp # rs
            \<and> status resp = 200) \<longrightarrow> es2 = []"
    by (elim exE conjE)
  from b0(4) q have "es2 = []" by blast
  with b0 q have b: "\<exists>w'. download_news ascii_platform morning_plugin ''20240101.jpeg''
           (api_world 738886 [image_reply]) = (Inr (Some (Path ''20240101.jpeg'', True)), w')
      \<and> marks (trace w') = [Started]"
    by (simp add: expected_marks_simps)
  have c3: "cancel_after dead_world = None" by code_simp
  have f3: "fst (failed_attempts morning_plugin ''20240101.jpeg''
              (strftime_iso ascii_platform (date_of (now dead_world))) 1 3 dead_world)
        = [NetworkError [], NetworkError [], NetworkError []]" by code_simp
  from download_news_attempts [OF k c3, where L = ascii_platform and path = "''20240101.jpeg''"]
  obtain es3 v3 r3 w3 where d0:
    "failed_attempts morning_plugin ''20240101.jpeg''
       (strftime_iso ascii_platform (date_of (now dead_world))) 1 3 dead_world = (es3, v3)"
    "download_news ascii_platform morning_plugin ''20240101.jpeg'' dead_world = (Inr (Some r3), w3)"
    "marks (trace w3) = marks (trace dead_world) @ expected_marks (length es3)"
    "attempts_in (trace w3) = attempts_in (trace dead_world) + min (length es3 + 1) 3"
    "waits_in (trace w3) = waits_in (trace dead_world) + (min (length es3 + 1) 3 - 1)"
    "length es3 = 3 \<longrightarrow>
            r3 = (Report (last es3), False)
            \<and> w3 = logger (Error_failed (last es3)) (logger (Error_retry 3 3 (last es3)) v3)"
    by (elim exE conjE)
  from d0(1) f3 have es3: "es3 = [NetworkError [], NetworkError [], NetworkError []]" by simp
  with d0 t have d: "\<exists>v w'. failed_attempts morning_plugin ''20240101.jpeg''
              (strftime_iso ascii_platform (date_of (now dead_world))) 1 3 dead_world
            = ([NetworkError [], NetworkError [], NetworkError []], v)
      \<and> download_news ascii_platform morning_plugin ''20240101.jpeg'' dead_world
           = (Inr (Some (Report (NetworkError []), False)), w')
      \<and> marks (trace w') = expected_marks 3
      \<and> attempts_in (trace w') = 3 \<and> waits_in (trace w') = 2"
    by (simp add: attempts_in_def waits_in_def expected_marks_simps expected_marks_Suc)
  from k c a b d show ?thesis by (intro conjI)
qed

section \<open>The broadcast\<close>

lemma paces_append [simp]: "paces (xs @ ys) = paces xs + paces ys"
  by (simp add: paces_def)

text \<open>The three ways the body of the broadcast loop can end.\<close>

lemma push_to_cases:
  assumes "cancel_after w = None"
  shows "\<exists>r w'. push_to L P t w = (r, w') \<and> cancel_after w' = None \<and> locked w' = locked w \<and>
     ((\<not> known_news_type P \<and> r = Inl TypeError \<and> send_results w' = send_results w
         \<and> bmarks (trace w') = bmarks (trace w))
      \<or> (\<exists>s rs. send_results w = Some s # rs \<and> r = Inl (SendError s) \<and> send_results w' = rs
         \<and> bmarks (trace w') = bmarks (trace w) @ [Sent t])
      \<or> ((\<forall>s rs. send_results w \<noteq> Some s # rs) \<and> r = Inr () \<and> send_results w' = tl (send_results w)
         \<and> bmarks (trace w') = bmarks (trace w) @ [Sent t, Paced]))"
proof -
  obtain x w1 where g: "get_image_news L P w = (Inr x, w1)" and s: "steady w w1"
    and k: "known_news_type P \<longrightarrow> x \<noteq> None"
    using get_image_news_steady [OF assms] by blast
  show ?thesis
  proof (cases x)
    case None
    with g s k show ?thesis by (simp add: push_to_def steady_def)
  next
    case (Some cb)
    obtain c b where cb: "cb = (c, b)" by (cases cb)
    let ?w2 = "logger (Info_push_image c) w1"
    have c2: "cancel_after ?w2 = None" using s by (simp add: steady_def)
    show ?thesis
    proof (cases "send_results w")
      case Nil
      with g s Some cb c2 show ?thesis
        by (simp add: push_to_def steady_def send_message_calm asyncio_sleep_calm)
    next
      case (Cons res rs)
      with g s Some cb c2 show ?thesis
        by (cases res) (simp_all add: push_to_def steady_def send_message_calm asyncio_sleep_calm)
    qed
  qed
qed

lemma send_loop_run:
  assumes "cancel_after w = None"
  shows "\<exists>w'. send_loop L P ts w = (Inr (), w') \<and> cancel_after w' = None \<and> locked w' = locked w
     \<and> paces (trace w') = paces (trace w) + length ts
     \<and> (known_news_type P \<longrightarrow>
          bmarks (trace w') = bmarks (trace w) @ expected_broadcast ts (send_results w))"
  using assms
proof (induction ts arbitrary: w)
  case Nil
  then show ?case by simp
next
  case (Cons t ts)
  obtain r w1 where p: "push_to L P t w = (r, w1)" and c1: "cancel_after w1 = None"
    and l1: "locked w1 = locked w"
    and cases: "(\<not> known_news_type P \<and> r = Inl TypeError \<and> send_results w1 = send_results w
         \<and> bmarks (trace w1) = bmarks (trace w))
      \<or> (\<exists>s rs. send_results w = Some s # rs \<and> r = Inl (SendError s) \<and> send_results w1 = rs
         \<and> bmarks (trace w1) = bmarks (trace w) @ [Sent t])
      \<or> ((\<forall>s rs. send_results w \<noteq> Some s # rs) \<and> r = Inr () \<and> send_results w1 = tl (send_results w)
         \<and> bmarks (trace w1) = bmarks (trace w) @ [Sent t, Paced])"
    using push_to_cases [OF Cons.prems, of L P t] by blast
  from cases show ?case
  proof (elim disjE conjE exE)
    assume a: "\<not> known_news_type P" "r = Inl TypeError" "bmarks (trace w1) = bmarks (trace w)"
    define w2 where "w2 = (emit (Sleep 2) (logger Exception_detail (logger (Error_push TypeError) w1)))
        \<lparr>now := now w1 + 2000000\<rparr>"
    have st: "send_loop L P (t # ts) w = send_loop L P ts w2"
      using p a c1 by (simp add: is_Exception_def asyncio_sleep_calm w2_def)
    have "cancel_after w2 = None" using c1 by (simp add: w2_def)
    from Cons.IH [OF this] st a l1 show ?thesis
      by (auto simp: w2_def paces_def)
  next
    fix s rs assume a: "send_results w = Some s # rs" "r = Inl (SendError s)"
      "send_results w1 = rs" "bmarks (trace w1) = bmarks (trace w) @ [Sent t]"
    define w2 where "w2 = (emit (Sleep 2) (logger Exception_detail (logger (Error_push (SendError s)) w1)))
        \<lparr>now := now w1 + 2000000\<rparr>"
    have st: "send_loop L P (t # ts) w = send_loop L P ts w2"
      using p a c1 by (simp add: is_Exception_def asyncio_sleep_calm w2_def)
    have "cancel_after w2 = None" using c1 by (simp add: w2_def)
    from Cons.IH [OF this] st a l1 show ?thesis
      by (auto simp: w2_def paces_def)
  next
    assume a: "\<forall>s rs. send_results w \<noteq> Some s # rs" "r = Inr ()"
      "send_results w1 = tl (send_results w)"
      "bmarks (trace w1) = bmarks (trace w) @ [Sent t, Paced]"
    have st: "send_loop L P (t # ts) w = send_loop L P ts w1"
      using p a by simp
    have e: "expected_broadcast (t # ts) (send_results w)
        = [Sent t, Paced] @ expected_broadcast ts (tl (send_results w))"
    proof (cases "send_results w")
      case Nil
      then show ?thesis by simp
    next
      case (Cons res rs)
      with a(1) show ?thesis by (cases res) simp_all
    qed
    from Cons.IH [OF c1] st a l1 e show ?thesis
      by (auto simp: paces_def)
  qed
qed

section \<open>The background loop\<close>

lemma calculate_sleep_time_raises:
  "calculate_sleep_time L P w = Inl e \<Longrightarrow> e = ValueError \<or> e = OverflowError"
  by (auto simp: calculate_sleep_time_def parse_push_time_def replace_time_def add_days_def
      split: sum.splits prod.splits list.splits option.splits if_splits)

lemma update_news_files_attempts:
  assumes "cancel_after w = None" and "known_news_type P"
    and "update_news_files L P w = (r, w')"
  shows "attempts_in (trace w) < attempts_in (trace w')"
proof -
  let ?w0 = "logger Info_update w"
  let ?p = "strftime_Ymd L (date_of (now ?w0)) @ ''.jpeg''"
  let ?w1 = "logger (Info_path ?p) ?w0"
  have "cancel_after ?w1 = None" using assms by simp
  from download_news_run [OF this assms(2), of ?p L] obtain n where
    n: "run_of ?w1 ?p n (download_news L P ?p ?w1)" by blast
  obtain x w2 where d: "download_news L P ?p ?w1 = (x, w2)" by (cases "download_news L P ?p ?w1")
  with assms(3) have "w' = w2"
    by (auto simp: update_news_files_def get_news_file_path_def Let_def split: sum.splits)
  moreover from n d have "marks (trace w2) = marks (trace w) @ expected_marks n"
    by (simp add: run_of_def)
  moreover have "0 < length (filter (\<lambda>m. m = Started) (expected_marks n))"
    by (simp add: expected_marks_def)
  ultimately show ?thesis by (simp add: attempts_in_def)
qed

text \<open>The ways one iteration of the loop can go when nothing cancels the task.\<close>

lemma daily_cycle_cases:
  assumes "cancel_after w = None"
  shows "(\<exists>e. calculate_sleep_time L P w = Inl e \<and> e \<noteq> CancelledError
            \<and> daily_cycle L P w = (Inl e, w))
       \<or> (\<exists>st w1 w2. calculate_sleep_time L P w = Inr st
            \<and> asyncio_sleep st (logger (Info_next st) w) = (Inr (), w1)
            \<and> update_news_files L P w1 = (Inr (), w2)
            \<and> cancel_after w2 = None
            \<and> delete_expired_news_files L P w2 = (Inl ValueError, w2)
            \<and> save_days P \<le> 0
            \<and> daily_cycle L P w = (Inl ValueError, w2))
       \<or> (\<exists>st w1 w2 w3 w4 w5. calculate_sleep_time L P w = Inr st
            \<and> asyncio_sleep st (logger (Info_next st) w) = (Inr (), w1)
            \<and> update_news_files L P w1 = (Inr (), w2)
            \<and> delete_expired_news_files L P w2 = (Inr (), w3)
            \<and> send_daily_news_to_groups L P w3 = (Inr (), w4)
            \<and> asyncio_sleep 60 w4 = (Inr (), w5)
            \<and> trace w5 = trace w4 @ [Sleep 60]
            \<and> cancel_after w5 = None
            \<and> (known_news_type P \<longrightarrow> attempts_in (trace w1) < attempts_in (trace w2))
            \<and> daily_cycle L P w = (Inr (), w5))"
proof (cases "calculate_sleep_time L P w")
  case (Inl e)
  then have "e \<noteq> CancelledError" using calculate_sleep_time_raises [of L P w e] by auto
  with Inl show ?thesis by (simp add: daily_cycle_def)
next
  case (Inr st)
  let ?w0 = "logger (Info_next st) w"
  define w1 where "w1 = (emit (Sleep st) ?w0)\<lparr>now := now ?w0 + max 0 \<lfloor>st * 1000000\<rfloor>\<rparr>"
  have s1: "asyncio_sleep st ?w0 = (Inr (), w1)"
    using assms by (simp add: asyncio_sleep_calm w1_def)
  have c1: "cancel_after w1 = None" using assms by (simp add: w1_def)
  obtain w2 where u: "update_news_files L P w1 = (Inr (), w2)" and st2: "steady w1 w2"
    using update_news_files_steady [OF c1] by blast
  have c2: "cancel_after w2 = None" using st2 by (simp add: steady_def)
  have att: "known_news_type P \<longrightarrow> attempts_in (trace w1) < attempts_in (trace w2)"
    using update_news_files_attempts [OF c1 _ u] by blast
  show ?thesis
  proof (cases "save_days P \<le> 0")
    case True
    then have d: "delete_expired_news_files L P w2 = (Inl ValueError, w2)"
      by (simp add: delete_expired_news_files_def)
    with Inr s1 u have "daily_cycle L P w = (Inl ValueError, w2)"
      by (simp add: daily_cycle_def)
    with Inr s1 u c2 d True show ?thesis by blast
  next
    case False
    then have "0 < save_days P" by simp
    from delete_expired_effect [OF this, of L w2] obtain w3 where
      d: "delete_expired_news_files L P w2 = (Inr (), w3)"
      and c3: "cancel_after w3 = cancel_after w2" by blast
    from send_loop_run [of w3 L P "groups P"] c3 c2 obtain w4 where
      b: "send_daily_news_to_groups L P w3 = (Inr (), w4)" and c4: "cancel_after w4 = None"
      by (auto simp: send_daily_news_to_groups_def)
    define w5 where "w5 = (emit (Sleep 60) w4)\<lparr>now := now w4 + max 0 \<lfloor>60 * 1000000\<rfloor>\<rparr>"
    have s5: "asyncio_sleep 60 w4 = (Inr (), w5)"
      using c4 asyncio_sleep_calm [of w4 60] by (simp add: w5_def)
    have t5: "trace w5 = trace w4 @ [Sleep 60]" "cancel_after w5 = None"
      using c4 by (simp_all add: w5_def)
    from Inr s1 u d b s5 have "daily_cycle L P w = (Inr (), w5)"
      by (simp add: daily_cycle_def)
    with Inr s1 u d b s5 t5 att show ?thesis by blast
  qed
qed




section \<open>The read on demand\<close>

text \<open>
  C4. With \<open>path\<close> the path that \<^verbatim>\<open>_get_news_file_path\<close> computes for today:
  when the file exists, \<^verbatim>\<open>_get_image_news\<close> returns the path with \<^verbatim>\<open>True\<close>, issues no
  request and leaves the replies of the network and the directory as they were; when it
  does not exist, the call is one call of \<^verbatim>\<open>_download_news\<close> for that path and returns
  what it returns.
\<close>

theorem get_image_news_cached_or_downloaded:
  assumes "get_news_file_path L w = ((path, name), w1)"
  shows "(file_exists path w \<longrightarrow>
            get_image_news L P w = (Inr (Some (Path path, True)), w1)
            \<and> replies w1 = replies w \<and> files w1 = files w
            \<and> requests (trace w1) = requests (trace w))
       \<and> (\<not> file_exists path w \<longrightarrow> get_image_news L P w = download_news L P path w1)"
  using assms
  by (auto simp: get_image_news_def get_news_file_path_def Let_def file_exists_def requests_def)

text \<open>A directory that holds today's file, and an empty one.\<close>

theorem get_image_news_cached_or_downloaded_witness:
  "file_exists ''20240101.jpeg'' cached_world \<and>
   get_image_news ascii_platform morning_plugin cached_world
     = (Inr (Some (Path ''20240101.jpeg'', True)), logger (Info_path ''20240101.jpeg'') cached_world) \<and>
   replies (snd (get_image_news ascii_platform morning_plugin cached_world)) = [image_reply] \<and>
   \<not> file_exists ''20240101.jpeg'' flaky_world \<and>
   get_image_news ascii_platform morning_plugin flaky_world
     = download_news ascii_platform morning_plugin ''20240101.jpeg''
         (logger (Info_path ''20240101.jpeg'') flaky_world)"
proof -
  have p1: "get_news_file_path ascii_platform cached_world
      = ((''20240101.jpeg'', ''20240101.jpeg''), logger (Info_path ''20240101.jpeg'') cached_world)"
    by code_simp
  have p2: "get_news_file_path ascii_platform flaky_world
      = ((''20240101.jpeg'', ''20240101.jpeg''), logger (Info_path ''20240101.jpeg'') flaky_world)"
    by code_simp
  have e1: "file_exists ''20240101.jpeg'' cached_world" by code_simp
  have e2: "\<not> file_exists ''20240101.jpeg'' flaky_world" by code_simp
  have r: "replies cached_world = [image_reply]" by code_simp
  show ?thesis
    using get_image_news_cached_or_downloaded [OF p1, of morning_plugin]
      get_image_news_cached_or_downloaded [OF p2, of morning_plugin] e1 e2 r
    by simp
qed

section \<open>The indirect mode\<close>

text \<open>
  C7, amended. In indirect mode, with a first reply of HTTP status 200 whose body is a JSON
  object and a task that is not cancelled, an attempt first requests the configured
  endpoint as it is configured: the date takes no part in it. If the field \<^verbatim>\<open>code\<close> is
  not 200 the attempt fails with the value of the field \<^verbatim>\<open>msg\<close>, and the downloader
  counts it as attempt 1 of 3 and waits. If \<^verbatim>\<open>code\<close> is 200 and the image URL is absent or
  empty the attempt fails with a message of its own. If the image URL is a non-empty
  string \<open>u\<close>, the second request goes to \<open>u\<close>; the attempt succeeds exactly when that
  request is answered with status 200 (and the file can be written), the file then holds
  the body of that answer, and any other status fails the attempt with that status.
\<close>

theorem indirect_attempt:
  assumes "news_type P = ''indirect''" and "cancel_after w = None"
    and "replies w = Responds resp # rs" and "status resp = 200"
    and "json_body resp = Some (JObj kvs)"
  shows
   "(\<forall>date'. attempt_body P path date' w = attempt_body P path date w)
  \<and> (\<exists>evs. trace (snd (attempt_body P path date w))
         = trace w @ [Logged (Info_fetch (api P)), Get (api P)] @ evs)
  \<and> (map_of kvs ''code'' \<noteq> Some (JNum 200) \<longrightarrow>
       attempt_body P path date w
         = (Inl (Exception (Api_error (map_of kvs ''msg''))), asked P rs w)
       \<and> (\<exists>evs. trace (snd (download_news L P path w))
             = trace (asked P rs w)
               @ [Logged (Error_retry 1 3 (Exception (Api_error (map_of kvs ''msg'')))), Sleep 1]
               @ evs))
  \<and> (map_of kvs ''code'' = Some (JNum 200) \<and> \<not> truthy (map_of kvs ''imageUrl'') \<longrightarrow>
       attempt_body P path date w = (Inl (Exception Missing_image_url), asked P rs w))
  \<and> (\<forall>u. map_of kvs ''code'' = Some (JNum 200) \<and> map_of kvs ''imageUrl'' = Some (JStr u)
          \<and> u \<noteq> [] \<longrightarrow>
       (\<exists>evs. trace (snd (attempt_body P path date w))
           = trace (asked P rs w) @ [Logged (Info_image (JStr u)), Get u] @ evs)
       \<and> (fst (attempt_body P path date w) = Inr True \<longleftrightarrow>
            (\<exists>img rs'. rs = Responds img # rs' \<and> status img = 200) \<and> path \<notin> set (locked w))
       \<and> (\<forall>img rs'. rs = Responds img # rs' \<and> status img = 200 \<and> path \<notin> set (locked w) \<longrightarrow>
            map_of (files (snd (attempt_body P path date w))) path = Some (body img))
       \<and> (\<forall>img rs'. rs = Responds img # rs' \<and> status img \<noteq> 200 \<longrightarrow>
            fst (attempt_body P path date w) = Inl (Exception (Image_http (status img)))))"
proof (intro conjI allI impI)
  show "\<And>date'. attempt_body P path date' w = attempt_body P path date w"
    using assms(1) by (rule indirect_date_free)
  show "\<exists>evs. trace (snd (attempt_body P path date w))
         = trace w @ [Logged (Info_fetch (api P)), Get (api P)] @ evs"
    using assms(1-3) by (rule indirect_first_request)
next
  assume c: "map_of kvs ''code'' \<noteq> Some (JNum 200)"
  show r: "attempt_body P path date w
         = (Inl (Exception (Api_error (map_of kvs ''msg''))), asked P rs w)"
    using assms c by (rule indirect_rejected)
  have k: "known_news_type P" using assms(1) by (simp add: known_news_type_def)
  have "attempt_body P path (strftime_iso L (date_of (now w))) w
         = (Inl (Exception (Api_error (map_of kvs ''msg''))), asked P rs w)"
    using assms c by (rule indirect_rejected)
  from first_failure_logged [OF assms(2) k this]
  show "\<exists>evs. trace (snd (download_news L P path w))
             = trace (asked P rs w)
               @ [Logged (Error_retry 1 3 (Exception (Api_error (map_of kvs ''msg'')))), Sleep 1]
               @ evs" .
next
  assume "map_of kvs ''code'' = Some (JNum 200) \<and> \<not> truthy (map_of kvs ''imageUrl'')"
  then show "attempt_body P path date w = (Inl (Exception Missing_image_url), asked P rs w)"
    using assms indirect_no_url by blast
next
  fix u
  assume a: "map_of kvs ''code'' = Some (JNum 200) \<and> map_of kvs ''imageUrl'' = Some (JStr u)
          \<and> u \<noteq> []"
  then have c: "map_of kvs ''code'' = Some (JNum 200)"
    and i: "map_of kvs ''imageUrl'' = Some (JStr u)" and u: "u \<noteq> []" by simp_all
  note acc = indirect_accepted [OF assms c i u, of path date]
  show "\<exists>evs. trace (snd (attempt_body P path date w))
           = trace (asked P rs w) @ [Logged (Info_image (JStr u)), Get u] @ evs"
    by (rule acc(1))
  show "fst (attempt_body P path date w) = Inr True \<longleftrightarrow>
            (\<exists>img rs'. rs = Responds img # rs' \<and> status img = 200) \<and> path \<notin> set (locked w)"
    by (rule acc(2))
  show "\<And>img rs'. rs = Responds img # rs' \<and> status img = 200 \<and> path \<notin> set (locked w) \<Longrightarrow>
            map_of (files (snd (attempt_body P path date w))) path = Some (body img)"
    using acc(3) by blast
  show "\<And>img rs'. rs = Responds img # rs' \<and> status img \<noteq> 200 \<Longrightarrow>
            fst (attempt_body P path date w) = Inl (Exception (Image_http (status img)))"
    using acc(4) by blast
qed

text \<open>
  The reply \<^verbatim>\<open>{code: 500, msg: "bad"}\<close> fails with \<^verbatim>\<open>bad\<close>; a reply without
  \<^verbatim>\<open>imageUrl\<close> fails for the missing field; the reply
  \<^verbatim>\<open>{code: 200, imageUrl: "http://x/y.jpg"}\<close> followed by the image succeeds, and followed
  by a status 404 fails with that status.
\<close>

theorem indirect_attempt_witness:
  "attempt_body indirect_plugin ''20240101.jpeg'' ''2024-01-01''
      (api_world 738886 [rejected_reply, accepted_reply, image_reply])
     = (Inl (Exception (Api_error (Some (JStr ''bad'')))),
        asked indirect_plugin [accepted_reply, image_reply]
          (api_world 738886 [rejected_reply, accepted_reply, image_reply])) \<and>
   attempt_body indirect_plugin ''20240101.jpeg'' ''2024-01-01'' (api_world 738886 [configured_reply])
     = (Inl (Exception Missing_image_url),
        asked indirect_plugin [] (api_world 738886 [configured_reply])) \<and>
   fst (attempt_body indirect_plugin ''20240101.jpeg'' ''2024-01-01''
      (api_world 738886 [accepted_reply, image_reply])) = Inr True \<and>
   map_of (files (snd (attempt_body indirect_plugin ''20240101.jpeg'' ''2024-01-01''
      (api_world 738886 [accepted_reply, image_reply])))) ''20240101.jpeg'' = Some ''image'' \<and>
   fst (attempt_body indirect_plugin ''20240101.jpeg'' ''2024-01-01''
      (api_world 738886 [accepted_reply, not_found_reply])) = Inl (Exception (Image_http 404))"
proof -
  have t: "news_type indirect_plugin = ''indirect''" by (simp add: indirect_plugin_def)
  have c: "\<And>rs. cancel_after (api_world 738886 rs) = None" by (simp add: api_world_def)
  have s: "\<And>kvs. status (json_response kvs) = 200"
    "\<And>kvs. json_body (json_response kvs) = Some (JObj kvs)"
    by (simp_all add: json_response_def)
  have r1: "replies (api_world 738886 [rejected_reply, accepted_reply, image_reply])
      = Responds (json_response rejected_fields) # [accepted_reply, image_reply]"
    by (simp add: api_world_def rejected_reply_def)
  have r2: "replies (api_world 738886 [configured_reply])
      = Responds (json_response configured_fields) # []"
    by (simp add: api_world_def configured_reply_def)
  have r3: "replies (api_world 738886 [accepted_reply, image_reply])
      = Responds (json_response accepted_fields) # [Responds image_response]"
    by (simp add: api_world_def accepted_reply_def image_reply_def)
  have l: "''20240101.jpeg'' \<notin> set (locked (api_world 738886 [accepted_reply, image_reply]))"
    by (simp add: api_world_def)
  have r4: "replies (api_world 738886 [accepted_reply, not_found_reply])
      = Responds (json_response accepted_fields)
        # [Responds \<lparr>status = 404, body = [], json_body = None\<rparr>]"
    by (simp add: api_world_def accepted_reply_def not_found_reply_def)
  have i: "status image_response = 200" "body image_response = ''image''"
    by (simp_all add: image_response_def)
  show ?thesis
    using indirect_attempt [OF t c r1 s, of "''20240101.jpeg''" "''2024-01-01''" ascii_platform]
      indirect_attempt [OF t c r2 s, of "''20240101.jpeg''" "''2024-01-01''" ascii_platform]
      indirect_attempt [OF t c r3 s, of "''20240101.jpeg''" "''2024-01-01''" ascii_platform]
      indirect_attempt [OF t c r4 s, of "''20240101.jpeg''" "''2024-01-01''" ascii_platform] l i
    by (simp add: rejected_fields_def configured_fields_def accepted_fields_def)
qed

text \<open>
  C7 as stated fails: on 1 January and on 2 January 2024 the requests are the same two,
  the endpoint as configured and the image URL; no date is part of either.
\<close>

theorem indirect_request_not_dated:
  "strftime_iso ascii_platform (date_of (now (api_world 738886 [accepted_reply, image_reply])))
     = ''2024-01-01'' \<and>
   strftime_iso ascii_platform (date_of (now (api_world 738887 [accepted_reply, image_reply])))
     = ''2024-01-02'' \<and>
   requests (trace (snd (download_news ascii_platform indirect_plugin ''20240101.jpeg''
                          (api_world 738886 [accepted_reply, image_reply]))))
     = [''http://api/news'', ''http://x/y.jpg''] \<and>
   requests (trace (snd (download_news ascii_platform indirect_plugin ''20240102.jpeg''
                          (api_world 738887 [accepted_reply, image_reply]))))
     = [''http://api/news'', ''http://x/y.jpg'']"
  by code_simp

lemma indirect_api_error_iff:
  assumes "news_type P = ''indirect''" and "cancel_after w = None"
    and "replies w = Responds resp # rs" and "status resp = 200"
    and "json_body resp = Some (JObj kvs)"
  shows "(\<exists>m. fst (attempt_body P path date w) = Inl (Exception (Api_error m)))
           \<longleftrightarrow> map_of kvs ''code'' \<noteq> Some (JNum 200)"
  using assms
  by (auto simp: attempt_body_def attempt_indirect_def http_get_calm write_file_cases Let_def
        dict_get_def
      split: list.splits reply.splits option.splits json.splits)

text \<open>
  C6, amended. In indirect mode the status code is read from the field named \<^verbatim>\<open>code\<close> and
  the message from the field named \<^verbatim>\<open>msg\<close>, whatever \<^verbatim>\<open>img_key\<close> and \<^verbatim>\<open>date_key\<close> are
  configured to be: a reply (HTTP status 200, a JSON object) is rejected exactly when its
  field \<^verbatim>\<open>code\<close> is not 200, and the rejection carries the value of its field \<^verbatim>\<open>msg\<close>.
\<close>

theorem indirect_field_names_fixed:
  assumes "news_type P = ''indirect''" and "cancel_after w = None"
    and "replies w = Responds resp # rs" and "status resp = 200"
    and "json_body resp = Some (JObj kvs)"
  shows "((\<exists>m. fst (attempt_body (P\<lparr>img_key := ik, date_key := dk\<rparr>) path date w)
              = Inl (Exception (Api_error m)))
           \<longleftrightarrow> map_of kvs ''code'' \<noteq> Some (JNum 200))
       \<and> (map_of kvs ''code'' \<noteq> Some (JNum 200) \<longrightarrow>
            fst (attempt_body (P\<lparr>img_key := ik, date_key := dk\<rparr>) path date w)
              = Inl (Exception (Api_error (map_of kvs ''msg''))))"
proof -
  have t: "news_type (P\<lparr>img_key := ik, date_key := dk\<rparr>) = ''indirect''"
    using assms(1) by simp
  show ?thesis
    using indirect_api_error_iff [OF t assms(2-5), of path date]
      indirect_rejected [OF t assms(2-5), of path date]
    by simp
qed

text \<open>The rejected reply, with other names configured.\<close>

theorem indirect_field_names_fixed_witness:
  "fst (attempt_body (indirect_plugin\<lparr>img_key := ''code'', date_key := ''msg''\<rparr>)
          ''20240101.jpeg'' ''2024-01-01'' (api_world 738886 [rejected_reply]))
     = Inl (Exception (Api_error (Some (JStr ''bad''))))"
proof -
  have t: "news_type indirect_plugin = ''indirect''" by (simp add: indirect_plugin_def)
  have c: "cancel_after (api_world 738886 [rejected_reply]) = None" by (simp add: api_world_def)
  have r: "replies (api_world 738886 [rejected_reply])
      = Responds (json_response rejected_fields) # []"
    by (simp add: api_world_def rejected_reply_def)
  have s: "status (json_response rejected_fields) = 200"
    "json_body (json_response rejected_fields) = Some (JObj rejected_fields)"
    by (simp_all add: json_response_def)
  show ?thesis
    using indirect_field_names_fixed [OF t c r s, where ik = "''code''" and dk = "''msg''"
        and path = "''20240101.jpeg''" and date = "''2024-01-01''"]
    by (simp add: rejected_fields_def)
qed

text \<open>
  C6 as stated fails: with \<^verbatim>\<open>img_key = "url"\<close> and \<^verbatim>\<open>date_key = "day"\<close> configured, a
  reply that carries the image URL under \<^verbatim>\<open>url\<close> fails for a missing image URL, a reply
  that carries one URL under \<^verbatim>\<open>imageUrl\<close> and another under \<^verbatim>\<open>url\<close> has the first one
  requested, and the status and the message are read under \<^verbatim>\<open>code\<close> and \<^verbatim>\<open>msg\<close>.
\<close>

theorem configured_field_names_unused:
  "img_key indirect_plugin = ''url'' \<and> date_key indirect_plugin = ''day'' \<and>
   fst (attempt_body indirect_plugin ''20240101.jpeg'' ''2024-01-01''
          (api_world 738886 [configured_reply, image_reply]))
     = Inl (Exception Missing_image_url) \<and>
   requests (trace (snd (attempt_body indirect_plugin ''20240101.jpeg'' ''2024-01-01''
          (api_world 738886 [accepted_reply, image_reply]))))
     = [''http://api/news'', ''http://x/y.jpg''] \<and>
   fst (attempt_body indirect_plugin ''20240101.jpeg'' ''2024-01-01''
          (api_world 738886 [rejected_reply]))
     = Inl (Exception (Api_error (Some (JStr ''bad''))))"
  by code_simp

section \<open>A news type that is none of the three\<close>

text \<open>
  C10, amended. For the three known news types \<^verbatim>\<open>_download_news\<close> returns a pair (the
  task not being cancelled). For any other news type it returns \<^verbatim>\<open>None\<close> and does
  nothing else. \<^verbatim>\<open>_get_image_news\<close> does not unpack that result: when today's file is
  missing it returns the \<^verbatim>\<open>None\<close> itself, and the failure, a \<^verbatim>\<open>TypeError\<close>, is in the
  callers that unpack what \<^verbatim>\<open>_get_image_news\<close> returns: the two image commands and the body
  of the broadcast loop. When today's file exists nothing fails.
\<close>

theorem unknown_news_type_returns_none:
  assumes "get_news_file_path L w = ((path, name), w1)"
  shows "(known_news_type P \<and> cancel_after w = None \<longrightarrow>
            (\<exists>r w'. download_news L P p w = (Inr (Some r), w')))
       \<and> (\<not> known_news_type P \<longrightarrow>
            download_news L P p w = (Inr None, w)
            \<and> (\<not> file_exists path w \<longrightarrow>
                 get_image_news L P w = (Inr None, w1)
                 \<and> daily_60s_news L P w = (Inl TypeError, w1)
                 \<and> push_image_news L P w = (Inl TypeError, w1)
                 \<and> push_to L P target w = (Inl TypeError, w1))
            \<and> (file_exists path w \<longrightarrow>
                 get_image_news L P w = (Inr (Some (Path path, True)), w1)
                 \<and> daily_60s_news L P w = (Inr (Path path), w1)))"
proof -
  have a: "known_news_type P \<and> cancel_after w = None \<longrightarrow>
            (\<exists>r w'. download_news L P p w = (Inr (Some r), w'))"
  proof
    assume h: "known_news_type P \<and> cancel_after w = None"
    then obtain n where "run_of w p n (download_news L P p w)"
      using download_news_run [of w P p L] by blast
    then show "\<exists>r w'. download_news L P p w = (Inr (Some r), w')"
      by (cases "download_news L P p w") (auto simp: run_of_def split: if_splits)
  qed
  have b: "\<not> known_news_type P \<longrightarrow>
            download_news L P p w = (Inr None, w)
            \<and> (\<not> file_exists path w \<longrightarrow>
                 get_image_news L P w = (Inr None, w1)
                 \<and> daily_60s_news L P w = (Inl TypeError, w1)
                 \<and> push_image_news L P w = (Inl TypeError, w1)
                 \<and> push_to L P target w = (Inl TypeError, w1))
            \<and> (file_exists path w \<longrightarrow>
                 get_image_news L P w = (Inr (Some (Path path, True)), w1)
                 \<and> daily_60s_news L P w = (Inr (Path path), w1))"
    using assms
    by (auto simp: download_news_unknown get_image_news_def daily_60s_news_def
        push_image_news_def push_to_def get_news_file_path_def Let_def file_exists_def)
  from a b show ?thesis by blast
qed

text \<open>The news type \<^verbatim>\<open>text\<close>, without and with today's file.\<close>

theorem unknown_news_type_returns_none_witness:
  "known_news_type morning_plugin \<and> cancel_after flaky_world = None \<and>
   (\<exists>r w'. download_news ascii_platform morning_plugin ''20240101.jpeg'' flaky_world
             = (Inr (Some r), w')) \<and>
   \<not> known_news_type text_plugin \<and>
   download_news ascii_platform text_plugin ''20240101.jpeg'' flaky_world = (Inr None, flaky_world) \<and>
   \<not> file_exists ''20240101.jpeg'' flaky_world \<and>
   get_image_news ascii_platform text_plugin flaky_world
     = (Inr None, logger (Info_path ''20240101.jpeg'') flaky_world) \<and>
   daily_60s_news ascii_platform text_plugin flaky_world
     = (Inl TypeError, logger (Info_path ''20240101.jpeg'') flaky_world) \<and>
   file_exists ''20240101.jpeg'' cached_world \<and>
   daily_60s_news ascii_platform text_plugin cached_world
     = (Inr (Path ''20240101.jpeg''), logger (Info_path ''20240101.jpeg'') cached_world)"
proof -
  have p1: "get_news_file_path ascii_platform flaky_world
      = ((''20240101.jpeg'', ''20240101.jpeg''), logger (Info_path ''20240101.jpeg'') flaky_world)"
    by code_simp
  have p2: "get_news_file_path ascii_platform cached_world
      = ((''20240101.jpeg'', ''20240101.jpeg''), logger (Info_path ''20240101.jpeg'') cached_world)"
    by code_simp
  have k: "known_news_type morning_plugin" "\<not> known_news_type text_plugin" by code_simp+
  have c: "cancel_after flaky_world = None" by code_simp
  have e: "\<not> file_exists ''20240101.jpeg'' flaky_world" "file_exists ''20240101.jpeg'' cached_world"
    by code_simp+
  show ?thesis
    using unknown_news_type_returns_none [OF p1, of morning_plugin "''20240101.jpeg''"]
      unknown_news_type_returns_none [OF p1, of text_plugin "''20240101.jpeg''"]
      unknown_news_type_returns_none [OF p2, of text_plugin]
      k c e
    by simp
qed

text \<open>
  C10 as stated fails: with the news type \<^verbatim>\<open>text\<close> and no file for today,
  \<^verbatim>\<open>_get_image_news\<close> returns \<^verbatim>\<open>None\<close> and raises nothing; its caller raises.
\<close>

theorem get_image_news_passes_none_on:
  "\<not> known_news_type text_plugin \<and>
   \<not> file_exists ''20240101.jpeg'' flaky_world \<and>
   fst (get_image_news ascii_platform text_plugin flaky_world) = Inr None \<and>
   fst (daily_60s_news ascii_platform text_plugin flaky_world) = Inl TypeError"
  by code_simp

text \<open>
  C8. When nothing cancels the task, \<^verbatim>\<open>_send_daily_news_to_groups\<close> returns normally for
  every list of targets and every sequence of outcomes of the send primitive, having slept
  the two seconds of pacing once for each target. For a known news type the trace shows,
  for the targets in their configured order, the call of the send primitive, the error
  line when that call raised, and the pacing delay: a failed send is followed by the
  sends to all later targets.
\<close>

theorem send_to_every_group:
  assumes "cancel_after w = None"
  shows "\<exists>w'. send_daily_news_to_groups L P w = (Inr (), w')
          \<and> paces (trace w') = paces (trace w) + length (groups P)
          \<and> (known_news_type P \<longrightarrow>
                bmarks (trace w') = bmarks (trace w) @ expected_broadcast (groups P) (send_results w))"
  using send_loop_run [OF assms, of L P "groups P"]
  by (auto simp: send_daily_news_to_groups_def)

text \<open>Two targets, the send to the second one refused.\<close>

theorem send_to_every_group_witness:
  "cancel_after dead_world = None \<and> known_news_type morning_plugin \<and>
   (\<exists>w'. send_daily_news_to_groups ascii_platform morning_plugin dead_world = (Inr (), w')
      \<and> bmarks (trace w') = [Sent ''g1'', Paced, Sent ''g2'', Errored, Paced])"
proof -
  have c: "cancel_after dead_world = None" by code_simp
  have k: "known_news_type morning_plugin" by code_simp
  have e: "bmarks (trace dead_world) @ expected_broadcast (groups morning_plugin) (send_results dead_world)
      = [Sent ''g1'', Paced, Sent ''g2'', Errored, Paced]" by code_simp
  from send_to_every_group [OF c, of ascii_platform morning_plugin] k e
  show ?thesis using c by auto
qed



text \<open>
  C5. With \<^verbatim>\<open>save_days \<le> 0\<close> the sweep raises \<^verbatim>\<open>ValueError\<close> and leaves the world, the
  cache directory included, as it was; the \<^verbatim>\<open>clean\<close> command raises it in turn. In the
  background loop the iteration ends in the handler: some exception \<open>e\<close> is caught (the
  sweep's \<^verbatim>\<open>ValueError\<close> whenever the push time could be computed), logged and followed
  by the sleep of 300 seconds, and the loop goes on.
\<close>

theorem nonpositive_save_days_raises:
  assumes "save_days P \<le> 0"
  shows "delete_expired_news_files L P w = (Inl ValueError, w)
       \<and> clean_news L P w = (Inl ValueError, w)
       \<and> (cancel_after w = None \<longrightarrow>
            (\<exists>e w1 w'. daily_cycle L P w = (Inl e, w1) \<and> e \<noteq> CancelledError
               \<and> (\<forall>st. calculate_sleep_time L P w = Inr st \<longrightarrow>
                     e = ValueError \<and> delete_expired_news_files L P w1 = (Inl ValueError, w1))
               \<and> daily_iteration L P w = (Inr (), w')
               \<and> trace w' = trace w1 @ [Logged (Error_task e), Traceback, Sleep 300]
               \<and> daily_task L P w = daily_task L P w'))"
proof -
  have d: "\<And>v. delete_expired_news_files L P v = (Inl ValueError, v)"
    using assms by (simp add: delete_expired_news_files_def)
  have cl: "clean_news L P w = (Inl ValueError, w)"
    by (simp add: clean_news_def d)
  have loop: "\<exists>e w1 w'. daily_cycle L P w = (Inl e, w1) \<and> e \<noteq> CancelledError
               \<and> (\<forall>st. calculate_sleep_time L P w = Inr st \<longrightarrow>
                     e = ValueError \<and> delete_expired_news_files L P w1 = (Inl ValueError, w1))
               \<and> daily_iteration L P w = (Inr (), w')
               \<and> trace w' = trace w1 @ [Logged (Error_task e), Traceback, Sleep 300]
               \<and> daily_task L P w = daily_task L P w'"
    if calm: "cancel_after w = None"
  proof -
    have rec: "\<exists>w'. daily_iteration L P w = (Inr (), w')
        \<and> trace w' = trace w1 @ [Logged (Error_task e), Traceback, Sleep 300]
        \<and> daily_task L P w = daily_task L P w'"
      if a: "daily_cycle L P w = (Inl e, w1)" "e \<noteq> CancelledError" "cancel_after w1 = None" for e w1
    proof -
      let ?w' = "(emit (Sleep 300) (emit Traceback (logger (Error_task e) w1)))
                   \<lparr>now := now w1 + 300000000\<rparr>"
      have it: "daily_iteration L P w = (Inr (), ?w')"
        using a by (simp add: daily_iteration_def is_Exception_def asyncio_sleep_calm)
      have "daily_task L P w = daily_task L P ?w'"
        by (subst daily_task.simps) (simp add: it)
      with it show ?thesis by simp
    qed
    from daily_cycle_cases [OF calm, of L P] show ?thesis
    proof (elim disjE exE conjE)
      fix e assume a: "calculate_sleep_time L P w = Inl e" "e \<noteq> CancelledError"
        "daily_cycle L P w = (Inl e, w)"
      from rec [OF a(3,2) calm] a show ?thesis by auto
    next
      fix st w1 w2 assume a: "calculate_sleep_time L P w = Inr st" "cancel_after w2 = None"
        "daily_cycle L P w = (Inl ValueError, w2)"
      from rec [OF a(3) _ a(2)] a d [of w2] show ?thesis by auto
    next
      fix w2 w3 assume "delete_expired_news_files L P w2 = (Inr (), w3)"
      with d [of w2] show ?thesis by simp
    qed
  qed
  from d [of w] cl loop show ?thesis by blast
qed

text \<open>A retention of zero days on the example directory.\<close>

theorem nonpositive_save_days_raises_witness:
  "save_days careless_plugin \<le> 0 \<and> cancel_after cache_world = None \<and>
   delete_expired_news_files ascii_platform careless_plugin cache_world = (Inl ValueError, cache_world) \<and>
   clean_news ascii_platform careless_plugin cache_world = (Inl ValueError, cache_world) \<and>
   (\<exists>w'. daily_iteration ascii_platform careless_plugin cache_world = (Inr (), w')
      \<and> files w' = files cache_world)"
proof -
  have s: "save_days careless_plugin \<le> 0" by code_simp
  have c: "cancel_after cache_world = None" by code_simp
  have i: "fst (daily_iteration ascii_platform careless_plugin cache_world) = Inr ()" by code_simp
  have f: "files (snd (daily_iteration ascii_platform careless_plugin cache_world)) = files cache_world"
    by code_simp
  have x: "\<exists>w'. daily_iteration ascii_platform careless_plugin cache_world = (Inr (), w')
      \<and> files w' = files cache_world"
    using i f by (cases "daily_iteration ascii_platform careless_plugin cache_world") auto
  from nonpositive_save_days_raises [OF s, of ascii_platform cache_world] s c x
  show ?thesis by simp
qed

end
